theory Spec2Isabelle
  imports Main "HOL-Library.Word" "HOL-Library.Signed_Division"
begin

unbundle bit_operations_syntax

section \<open>Machine integers\<close>

text \<open>
  Go's fixed-width integers are words. An \<open>int64\<close> is a 64-bit word read in two's
  complement: \<open>sint\<close> gives its value, \<open><s\<close> and \<open>\<le>s\<close> compare it, \<open>+\<close> and \<open>-\<close>
  wrap around. An \<open>uint64\<close> is the same word read with \<open>unat\<close> and compared with \<open><\<close>;
  the conversion \<open>uint64(df)\<close> of an \<open>int64\<close> keeps the bits and is therefore invisible.
\<close>

type_synonym uint8 = "8 word"
type_synonym uint16 = "16 word"
type_synonym uint64 = "64 word"
type_synonym int64 = "64 word"

text \<open>Go's \<open>/\<close> on \<open>int64\<close> truncates towards zero and wraps on overflow.\<close>

definition int64_div :: "int64 \<Rightarrow> int64 \<Rightarrow> int64" where
  "int64_div a b = word_of_int (sint a sdiv sint b)"

section \<open>Constants: the bit lengths of the parts of an ID\<close>

definition TimestampLength :: uint8 where
  "TimestampLength = 43"

definition MachineIDLength :: uint8 where
  "MachineIDLength = 9"

definition SequenceLength :: uint8 where
  "SequenceLength = 12"

definition MaxSequence :: uint16 where
  "MaxSequence = push_bit (unat SequenceLength) 1 - 1"

definition MaxTimestamp :: uint64 where
  "MaxTimestamp = push_bit (unat TimestampLength) 1 - 1"

definition MaxMachineID :: uint16 where
  "MaxMachineID = push_bit (unat MachineIDLength) 1 - 1"

definition machineIDMoveLength :: uint8 where
  "machineIDMoveLength = SequenceLength"

definition timestampMoveLength :: uint8 where
  "timestampMoveLength = MachineIDLength + SequenceLength"

section \<open>Package state\<close>

text \<open>
  A sequence resolver is a Go function \<open>func(ms int64) (uint16, error)\<close> that keeps
  state of its own between calls. Here it takes that state (of type \<open>'r\<close>) and returns it
  updated; its result is the error (by its message) or the sequence number. A resolver
  reads and writes its own state only, not the variables of the package or the clock.
\<close>

type_synonym 'r SequenceResolver = "int64 \<Rightarrow> 'r \<Rightarrow> (string + uint16) \<times> 'r"

text \<open>
  The package-level variables \<open>resolver\<close> (\<open>None\<close> is Go's \<open>nil\<close>), \<open>machineID\<close>,
  \<open>startTime\<close> and \<open>lastTimestamp\<close>, the state \<open>rstate\<close> that the resolvers own, and
  the system clock. \<open>NextID\<close> reads of \<open>startTime\<close> only \<open>startTime.UTC().UnixNano()\<close>,
  so the field holds that \<open>int64\<close>. The clock is the sequence of values that the successive
  calls of \<open>time.Now().UTC().UnixNano()\<close> return; \<open>tick\<close> counts the calls made so far.
  \<open>time.Sleep\<close> changes no variable of the program: what it does shows only in the
  clock values read after it.
\<close>

record 'r state =
  resolver :: "'r SequenceResolver option"
  machineID :: uint64
  startTime :: int64
  lastTimestamp :: int64
  rstate :: 'r
  clock :: "nat \<Rightarrow> int64"
  tick :: nat

text \<open>
  \<open>NextID\<close> builds two errors of its own with \<open>errors.New\<close> and passes on whatever error
  the resolver returns.
\<close>

datatype error = ClockBackwardError | EpochRangeError | ResolverError string

text \<open>The default start time 2008-11-10 23:00:00 UTC, in nanoseconds since 1970.\<close>

definition defaultStartTime :: int64 where
  "defaultStartTime = 1226358000000000000"

definition init_state :: "(nat \<Rightarrow> int64) \<Rightarrow> 'r \<Rightarrow> 'r state" where
  "init_state clk r =
     \<lparr>resolver = None, machineID = 0, startTime = defaultStartTime, lastTimestamp = 0,
      rstate = r, clock = clk, tick = 0\<rparr>"

section \<open>Private functions\<close>

definition currentMillis :: "'r state \<Rightarrow> int64 \<times> 'r state" where
  "currentMillis s = (int64_div (clock s (tick s)) 1000000, s\<lparr>tick := Suc (tick s)\<rparr>)"

definition elapsedTime :: "int64 \<Rightarrow> int64 \<Rightarrow> int64" where
  "elapsedTime noms s = noms - int64_div s 1000000"

text \<open>
  The default resolver \<open>AtomicResolver\<close> is not defined in the files at hand: the
  functions that use it take it as a parameter.
\<close>

definition callSequenceResolver :: "'r SequenceResolver \<Rightarrow> 'r state \<Rightarrow> 'r SequenceResolver" where
  "callSequenceResolver AtomicResolver s =
     (case resolver s of None \<Rightarrow> AtomicResolver | Some r \<Rightarrow> r)"

text \<open>
  \<open>waitForNextMillis\<close> reads the clock until it shows a millisecond after its argument
  (\<open>last\<close> in the source). On a clock that never gets there the loop does not end, and the
  value is \<open>None\<close>.
\<close>

partial_function (option) waitForNextMillis :: "int64 \<Rightarrow> 'r state \<Rightarrow> (int64 \<times> 'r state) option" where
  "waitForNextMillis last0 s =
     (case currentMillis s of (now, s') \<Rightarrow>
        if last0 <s now then Some (now, s') else waitForNextMillis last0 s')"

section \<open>Generating an ID\<close>

text \<open>
  The loop \<open>for seq >= MaxSequence\<close> of \<open>NextID\<close>: it ends with the resolver's error, or
  with the millisecond and the sequence number to use.
\<close>

partial_function (option) resolveLoop ::
  "'r SequenceResolver \<Rightarrow> int64 \<Rightarrow> uint16 \<Rightarrow> 'r state \<Rightarrow> ((string + int64 \<times> uint16) \<times> 'r state) option" where
  "resolveLoop seqResolver now seq s =
     (if MaxSequence \<le> seq then
        Option.bind (waitForNextMillis now s) (\<lambda>(now', s1).
          case seqResolver now' (rstate s1) of
            (Inl err, r) \<Rightarrow> Some (Inl err, s1\<lparr>rstate := r\<rparr>)
          | (Inr seq', r) \<Rightarrow> resolveLoop seqResolver now' seq' (s1\<lparr>rstate := r\<rparr>))
      else Some (Inr (now, seq), s))"

text \<open>
  The expression of \<open>NextID\<close> that packs the three parts into the ID.
\<close>

definition pack :: "int64 \<Rightarrow> uint64 \<Rightarrow> uint16 \<Rightarrow> uint64" where
  "pack df m seq =
     push_bit (unat timestampMoveLength) df OR push_bit (unat machineIDMoveLength) m OR ucast seq"

text \<open>
  \<open>NextID\<close> returns the pair of Go's \<open>(uint64, error)\<close>, with \<open>None\<close> for a \<open>nil\<close> error,
  and the state it leaves; it is \<open>None\<close> when one of its loops does not end.
\<close>

definition NextID ::
  "'r SequenceResolver \<Rightarrow> 'r state \<Rightarrow> ((uint64 \<times> error option) \<times> 'r state) option" where
  "NextID AtomicResolver s0 =
     (case currentMillis s0 of (now, s1) \<Rightarrow>
      let last0 = lastTimestamp s1 in
      if now <s last0 \<and> 5000 <s last0 - now then Some ((0, Some ClockBackwardError), s1)
      else
        (case (if now <s last0 then currentMillis s1 else (now, s1)) of (now, s2) \<Rightarrow>
         let seqResolver = callSequenceResolver AtomicResolver s2 in
         (case seqResolver now (rstate s2) of
            (Inl err, r) \<Rightarrow> Some ((0, Some (ResolverError err)), s2\<lparr>rstate := r\<rparr>)
          | (Inr seq, r) \<Rightarrow>
              (case resolveLoop seqResolver now seq (s2\<lparr>rstate := r\<rparr>) of
                 None \<Rightarrow> None
               | Some (Inl err, s3) \<Rightarrow> Some ((0, Some (ResolverError err)), s3)
               | Some (Inr (now, seq), s3) \<Rightarrow>
                   let s4 = s3\<lparr>lastTimestamp := now\<rparr>;
                       df = elapsedTime now (startTime s4) in
                   if df <s 0 \<or> MaxTimestamp < df then Some ((0, Some EpochRangeError), s4)
                   else Some ((pack df (machineID s4) seq, None), s4)))))"

definition ID :: "'r SequenceResolver \<Rightarrow> 'r state \<Rightarrow> (uint64 \<times> 'r state) option" where
  "ID AtomicResolver s = map_option (\<lambda>((id0, err), s'). (id0, s')) (NextID AtomicResolver s)"

section \<open>Configuration\<close>

text \<open>\<open>SetMachineID\<close> panics (\<open>None\<close>) or returns the new state.\<close>

definition SetMachineID :: "uint16 \<Rightarrow> 'r state \<Rightarrow> 'r state option" where
  "SetMachineID m s =
     (if MaxMachineID < m then None else Some (s\<lparr>machineID := ucast m\<rparr>))"

definition SetSequenceResolver :: "'r SequenceResolver option \<Rightarrow> 'r state \<Rightarrow> 'r state" where
  "SetSequenceResolver seq s = (if seq \<noteq> None then s\<lparr>resolver := seq\<rparr> else s)"

section \<open>Parsing an ID\<close>

record SID =
  Sequence :: uint64
  MachineID :: uint64
  Timestamp :: uint64
  ID_of :: uint64

definition ParseID :: "uint64 \<Rightarrow> SID" where
  "ParseID id0 =
     (let t = drop_bit (unat (SequenceLength + MachineIDLength)) id0;
          sequence = id0 AND ucast MaxSequence;
          mID = drop_bit (unat SequenceLength)
                  (id0 AND push_bit (unat SequenceLength) (ucast MaxMachineID))
      in \<lparr>Sequence = sequence, MachineID = mID, Timestamp = t, ID_of = id0\<rparr>)"

section \<open>Notions used to state the properties\<close>

text \<open>The millisecond that \<open>currentMillis\<close> makes of a clock value.\<close>

definition millis :: "int64 \<Rightarrow> int64" where
  "millis ns = int64_div ns 1000000"

text \<open>
  Every millisecond value that \<open>currentMillis\<close> can return lies in this range, because it
  is an \<open>int64\<close> divided by \<open>10^6\<close>. The watermark is 0 or such a value.
\<close>

definition millis_ok :: "int64 \<Rightarrow> bool" where
  "millis_ok w \<longleftrightarrow> - 9223372036854 \<le> sint w \<and> sint w \<le> 9223372036854"

text \<open>
  \<open>frame s s'\<close>: from \<open>s\<close> to \<open>s'\<close> only the clock was read and the resolver's own state
  changed; the configuration and the watermark are the same.
\<close>

definition frame :: "'r state \<Rightarrow> 'r state \<Rightarrow> bool" where
  "frame s s' \<longleftrightarrow>
     resolver s' = resolver s \<and> machineID s' = machineID s \<and> startTime s' = startTime s \<and>
     lastTimestamp s' = lastTimestamp s \<and> clock s' = clock s \<and> tick s \<le> tick s'"

text \<open>
  The part of \<open>NextID\<close> before the store of the watermark, taken by itself: the clock is
  read, a clock that went back by more than 5000 ms is refused, a smaller step back is
  slept out and the clock read again, and the resolver is asked for a sequence number
  until its answer is below the ceiling. \<open>NextID\<close> is this part followed by the store, the
  range check and the packing (\<open>NextID_acquire\<close>).
\<close>

definition acquire ::
  "'r SequenceResolver \<Rightarrow> 'r state \<Rightarrow> ((error + int64 \<times> uint16) \<times> 'r state) option" where
  "acquire AtomicResolver s0 =
     (case currentMillis s0 of (now, s1) \<Rightarrow>
      let last0 = lastTimestamp s1 in
      if now <s last0 \<and> 5000 <s last0 - now then Some (Inl ClockBackwardError, s1)
      else
        (case (if now <s last0 then currentMillis s1 else (now, s1)) of (now, s2) \<Rightarrow>
         let seqResolver = callSequenceResolver AtomicResolver s2 in
         (case seqResolver now (rstate s2) of
            (Inl err, r) \<Rightarrow> Some (Inl (ResolverError err), s2\<lparr>rstate := r\<rparr>)
          | (Inr seq, r) \<Rightarrow>
              (case resolveLoop seqResolver now seq (s2\<lparr>rstate := r\<rparr>) of
                 None \<Rightarrow> None
               | Some (Inl err, s3) \<Rightarrow> Some (Inl (ResolverError err), s3)
               | Some (Inr (now, seq), s3) \<Rightarrow> Some (Inr (now, seq), s3)))))"

text \<open>
  The decisions that \<open>NextID\<close> takes on its first clock value: \<open>refused\<close> when the clock is
  more than 5000 ms behind the watermark, \<open>slept\<close> when it is behind at all (and, unless
  refused, the call sleeps and reads the clock a second time). \<open>first_now\<close> is the
  millisecond with which the resolver is asked first, \<open>first_state\<close> the state at that point.
\<close>

definition refused :: "'r state \<Rightarrow> bool" where
  "refused s \<longleftrightarrow>
     (let now = millis (clock s (tick s)); last0 = lastTimestamp s
      in now <s last0 \<and> 5000 <s last0 - now)"

definition slept :: "'r state \<Rightarrow> bool" where
  "slept s \<longleftrightarrow> millis (clock s (tick s)) <s lastTimestamp s"

definition first_now :: "'r state \<Rightarrow> int64" where
  "first_now s =
     (if slept s then millis (clock s (Suc (tick s))) else millis (clock s (tick s)))"

definition first_state :: "'r state \<Rightarrow> 'r state" where
  "first_state s = s\<lparr>tick := (if slept s then Suc (Suc (tick s)) else Suc (tick s))\<rparr>"

text \<open>What a result \<open>y\<close> of the loop says about the values the loop started with.\<close>

definition loop_post ::
  "'r SequenceResolver \<Rightarrow> int64 \<Rightarrow> uint16 \<Rightarrow> 'r state \<Rightarrow> (string + int64 \<times> uint16) \<times> 'r state \<Rightarrow> bool" where
  "loop_post R now seq s y \<longleftrightarrow>
     frame s (snd y) \<and>
     (case fst y of
        Inl e \<Rightarrow> MaxSequence \<le> seq
      | Inr (now', seq') \<Rightarrow>
          seq' < MaxSequence \<and>
          (now' = now \<and> seq' = seq \<and> snd y = s \<or>
           now <s now' \<and> MaxSequence \<le> seq \<and> tick s < tick (snd y) \<and>
           now' = millis (clock s (tick (snd y) - 1)) \<and>
           (\<exists>r. R now' r = (Inr seq', rstate (snd y)))))"

text \<open>
  \<open>acquired R s now seq s'\<close>: what holds when the first part of \<open>NextID\<close>, started in \<open>s\<close>
  with the resolver \<open>R\<close>, ends in \<open>s'\<close> with the millisecond \<open>now\<close> and the sequence number
  \<open>seq\<close>.
\<close>

definition acquired :: "'r SequenceResolver \<Rightarrow> 'r state \<Rightarrow> int64 \<Rightarrow> uint16 \<Rightarrow> 'r state \<Rightarrow> bool" where
  "acquired R s now seq s' \<longleftrightarrow>
     \<not> refused s \<and> frame s s' \<and> tick s < tick s' \<and> seq < MaxSequence \<and>
     (now = first_now s \<and> R now (rstate s) = (Inr seq, rstate s') \<or>
      first_now s <s now \<and> (\<exists>r. R now r = (Inr seq, rstate s'))) \<and>
     (\<exists>i. tick s \<le> i \<and> i < tick s' \<and> now = millis (clock s i))"

text \<open>
  The contract of a resolver that the ordering of IDs rests on: asked twice in a row for
  the same millisecond, it does not answer with a smaller sequence number the second time
  (as long as the first answer was below the ceiling).
\<close>

definition resolver_monotone :: "'r SequenceResolver \<Rightarrow> bool" where
  "resolver_monotone R \<longleftrightarrow>
     (\<forall>ms r a r' b r''. R ms r = (Inr a, r') \<and> R ms r' = (Inr b, r'') \<and> a < MaxSequence \<longrightarrow> a \<le> b)"

text \<open>A system clock that never moves backward.\<close>

definition clock_monotone :: "(nat \<Rightarrow> int64) \<Rightarrow> bool" where
  "clock_monotone clk \<longleftrightarrow> (\<forall>i j. i \<le> j \<longrightarrow> clk i \<le>s clk j)"

text \<open>
  \<open>first_later now s k\<close>: counted from the state \<open>s\<close>, the \<open>k\<close>-th value of the clock is the
  first one that shows a millisecond after \<open>now\<close>.
\<close>

definition first_later :: "int64 \<Rightarrow> 'r state \<Rightarrow> nat \<Rightarrow> bool" where
  "first_later now s k \<longleftrightarrow>
     tick s \<le> k \<and> now <s millis (clock s k) \<and>
     (\<forall>j. tick s \<le> j \<and> j < k \<longrightarrow> \<not> now <s millis (clock s j))"

section \<open>Example inputs\<close>

text \<open>
  A resolver for the examples: a counter per millisecond, which starts again at 0 when the
  millisecond is not the one of the call before. Its state is that millisecond and the
  last number given out.
\<close>

definition counterResolver :: "(int64 \<times> uint16) SequenceResolver" where
  "counterResolver ms r =
     (case r of (lastTime, count) \<Rightarrow>
        if ms \<noteq> lastTime then (Inr 0, (ms, 0)) else (Inr (count + 1), (lastTime, count + 1)))"

text \<open>A clock that shows \<open>a\<close> when read first and \<open>b\<close> from then on.\<close>

definition step_clock :: "int64 \<Rightarrow> int64 \<Rightarrow> nat \<Rightarrow> int64" where
  "step_clock a b i = (if i = 0 then a else b)"

definition example_state ::
  "uint64 \<Rightarrow> int64 \<Rightarrow> int64 \<Rightarrow> int64 \<times> uint16 \<Rightarrow> int64 \<Rightarrow> int64 \<Rightarrow> nat \<Rightarrow> (int64 \<times> uint16) state" where
  "example_state m start last0 r a b n =
     \<lparr>resolver = Some counterResolver, machineID = m, startTime = start, lastTimestamp = last0,
      rstate = r, clock = step_clock a b, tick = n\<rparr>"

text \<open>
  The example of the specification: machine 5, the default start time, the clock 1000 ms
  after it, and a resolver whose next number for that millisecond is 42.
\<close>

definition literal_state :: "(int64 \<times> uint16) state" where
  "literal_state =
     example_state 5 defaultStartTime 0 (1226358001000, 41)
       1226358001000000000 1226358001000000000 0"

text \<open>The state that a call of \<open>NextID\<close> in \<open>literal_state\<close> leaves.\<close>

definition literal_next_state :: "(int64 \<times> uint16) state" where
  "literal_next_state =
     example_state 5 defaultStartTime 1226358001000 (1226358001000, 42)
       1226358001000000000 1226358001000000000 1"

text \<open>
  The watermark is at 1226358010000 ms and the clock shows a time 6000 ms before it.
\<close>

definition backward_state :: "(int64 \<times> uint16) state" where
  "backward_state =
     example_state 5 defaultStartTime 1226358010000 (0, 0)
       1226358004000000000 1226358004000000000 0"

text \<open>The clock shows a time 1000 ms before the start time.\<close>

definition before_epoch_state :: "(int64 \<times> uint16) state" where
  "before_epoch_state =
     example_state 5 defaultStartTime 0 (0, 0) 1226357999000000000 1226357999000000000 0"

text \<open>
  A clock that shows the millisecond 1226358001000 when read first and when read again,
  and the next millisecond from then on. In \<open>ceiling_state\<close> the resolver has given out 4094
  in the first of these milliseconds, so that its next answer is the ceiling 4095. The
  other states are those that a call of \<open>NextID\<close> in \<open>ceiling_state\<close> goes through: when
  the loop is entered, after the wait, when the loop is left, and at the end.
\<close>

definition wait_clock :: "nat \<Rightarrow> int64" where
  "wait_clock i = (if i < 2 then 1226358001000000000 else 1226358001001000000)"

definition wait_state :: "nat \<Rightarrow> int64 \<Rightarrow> int64 \<times> uint16 \<Rightarrow> (int64 \<times> uint16) state" where
  "wait_state n last0 r =
     \<lparr>resolver = Some counterResolver, machineID = 5, startTime = defaultStartTime,
      lastTimestamp = last0, rstate = r, clock = wait_clock, tick = n\<rparr>"

definition ceiling_state :: "(int64 \<times> uint16) state" where
  "ceiling_state = wait_state 0 0 (1226358001000, 4094)"

definition ceiling_loop_state :: "(int64 \<times> uint16) state" where
  "ceiling_loop_state = wait_state 1 0 (1226358001000, 4095)"

definition ceiling_waited_state :: "(int64 \<times> uint16) state" where
  "ceiling_waited_state = wait_state 3 0 (1226358001000, 4095)"

definition ceiling_end_state :: "(int64 \<times> uint16) state" where
  "ceiling_end_state = wait_state 3 0 (1226358001001, 0)"

definition ceiling_final_state :: "(int64 \<times> uint16) state" where
  "ceiling_final_state = wait_state 3 1226358001001 (1226358001001, 0)"

text \<open>
  A resolver that counts down: it answers with its counter and decrements it. Its answers
  are distinct, and \<open>SetSequenceResolver\<close> accepts it as it accepts any resolver. The states
  are the initial state of the package with the counter at 4094 and a clock that stays in
  one millisecond, the state after \<open>SetMachineID(5)\<close> and \<open>SetSequenceResolver\<close>, and the
  states after one and two calls of \<open>NextID\<close>.
\<close>

definition countdownResolver :: "(int64 \<times> uint16) SequenceResolver" where
  "countdownResolver ms r = (case r of (lastTime, count) \<Rightarrow> (Inr count, (ms, count - 1)))"

definition countdown_state :: "nat \<Rightarrow> int64 \<Rightarrow> int64 \<times> uint16 \<Rightarrow> (int64 \<times> uint16) state" where
  "countdown_state n last0 r =
     \<lparr>resolver = Some countdownResolver, machineID = 5, startTime = defaultStartTime,
      lastTimestamp = last0, rstate = r,
      clock = step_clock 1226358001000000000 1226358001000000000, tick = n\<rparr>"

definition countdown_initial_state :: "(int64 \<times> uint16) state" where
  "countdown_initial_state =
     init_state (step_clock 1226358001000000000 1226358001000000000) (0, 4094)"

definition countdown_first_state :: "(int64 \<times> uint16) state" where
  "countdown_first_state = countdown_state 0 0 (0, 4094)"

definition countdown_second_state :: "(int64 \<times> uint16) state" where
  "countdown_second_state = countdown_state 1 1226358001000 (1226358001000, 4093)"

definition countdown_third_state :: "(int64 \<times> uint16) state" where
  "countdown_third_state = countdown_state 2 1226358001000 (1226358001000, 4092)"

text \<open>
  The clock is 100 ms behind the watermark when the call starts, and has advanced by
  100 ms when it is read again after the sleep.
\<close>

definition recovering_state :: "(int64 \<times> uint16) state" where
  "recovering_state =
     example_state 5 defaultStartTime 1226358001100 (0, 0)
       1226358001000000000 1226358001100000000 0"

text \<open>
  A clock that shows 1226358001100 ms when read first, is then found set back by 100 ms,
  and has advanced by 99 ms only when it is read after a sleep of 100 ms (it was set back,
  or slowed down, once more). The states are those of two calls of \<open>NextID\<close> in a row on
  this clock, the first in a state with the watermark 0 and a resolver not used before.
\<close>

definition drift_clock :: "nat \<Rightarrow> int64" where
  "drift_clock i =
     (if i = 0 then 1226358001100000000
      else if i = 1 then 1226358001000000000
      else 1226358001099000000)"

definition drift_state :: "nat \<Rightarrow> int64 \<Rightarrow> int64 \<times> uint16 \<Rightarrow> (int64 \<times> uint16) state" where
  "drift_state n last0 r =
     \<lparr>resolver = Some counterResolver, machineID = 5, startTime = defaultStartTime,
      lastTimestamp = last0, rstate = r, clock = drift_clock, tick = n\<rparr>"

definition drift_first_state :: "(int64 \<times> uint16) state" where
  "drift_first_state = drift_state 0 0 (0, 0)"

definition drift_second_state :: "(int64 \<times> uint16) state" where
  "drift_second_state = drift_state 1 1226358001100 (1226358001100, 0)"

definition drift_third_state :: "(int64 \<times> uint16) state" where
  "drift_third_state = drift_state 3 1226358001099 (1226358001099, 0)"

text \<open>
  The start time is 1800-01-01 00:00:00 UTC, which \<open>SetStartTime\<close> accepts, and the
  clock shows 2026-10-30 00:00:00 UTC: 7157980800000 ms have elapsed, more than \<open>2^42\<close> and
  less than \<open>2^43\<close>.
\<close>

definition old_epoch_state :: "(int64 \<times> uint16) state" where
  "old_epoch_state =
     example_state 0 (- 5364662400000000000) 0 (0, 0)
       1793318400000000000 1793318400000000000 0"

section \<open>The constants and the bit layout\<close>

lemma MaxSequence_eq: "MaxSequence = 4095"
  by (simp add: MaxSequence_def SequenceLength_def)

lemma MaxTimestamp_eq: "MaxTimestamp = 8796093022207"
  by (simp add: MaxTimestamp_def TimestampLength_def)

lemma MaxMachineID_eq: "MaxMachineID = 511"
  by (simp add: MaxMachineID_def MachineIDLength_def)

lemma move_lengths: "unat timestampMoveLength = 21" "unat machineIDMoveLength = 12"
   "unat (SequenceLength + MachineIDLength) = 21" "unat SequenceLength = 12"
  by (simp_all add: timestampMoveLength_def machineIDMoveLength_def SequenceLength_def MachineIDLength_def)

lemma pack_eq: "pack df m seq = push_bit 21 df OR push_bit 12 m OR ucast seq"
  by (simp add: pack_def move_lengths)

lemma ParseID_eq: "ParseID i = \<lparr>Sequence = i AND 4095, MachineID = drop_bit 12 (i AND push_bit 12 511), Timestamp = drop_bit 21 i, ID_of = i\<rparr>"
  by (simp add: ParseID_def move_lengths MaxSequence_eq MaxMachineID_eq Let_def)

lemma ParseID_mask: "ParseID i = \<lparr>Sequence = i AND mask 12, MachineID = drop_bit 12 (i AND push_bit 12 (mask 9)), Timestamp = drop_bit 21 i, ID_of = i\<rparr>"
  by (simp add: ParseID_eq mask_eq_exp_minus_1)

lemma tb_self: 
  fixes w :: "'a::len word"
  assumes "w < 2 ^ k"  shows "take_bit k w = w"
  using less_mask_eq[OF assms] by (simp add: take_bit_eq_mask)

lemma df_tb: "(df::uint64) \<le> 8796093022207 \<Longrightarrow> take_bit 43 df = df"
  by (rule tb_self) (simp_all add: word_less_nat_alt word_le_nat_alt)

lemma m_tb: "(m::uint64) \<le> 511 \<Longrightarrow> take_bit 9 m = m"
  by (rule tb_self) (simp_all add: word_less_nat_alt word_le_nat_alt)

lemma s_tb: "(s::uint16) \<le> 4095 \<Longrightarrow> take_bit 12 s = s"
  by (rule tb_self) (simp_all add: word_less_nat_alt word_le_nat_alt)

lemma rt_seq0: "pack df m (take_bit 12 s) AND mask 12 = ucast (take_bit 12 s)"
  by (rule bit_word_eqI) (auto simp add: pack_eq bit_simps)

lemma rt_mid0: "drop_bit 12 (pack df (take_bit 9 m) (take_bit 12 s) AND push_bit 12 (mask 9)) = take_bit 9 m"
  by (rule bit_word_eqI) (auto simp add: pack_eq bit_simps)

lemma rt_ts0: "drop_bit 21 (pack (take_bit 43 df) (take_bit 9 m) (take_bit 12 s)) = take_bit 43 df"
  by (rule bit_word_eqI) (auto simp add: pack_eq bit_simps)

lemma roundtrip:
  assumes "df \<le> 8796093022207" "m \<le> 511" "s \<le> 4095"
  shows "ParseID (pack df m s) = \<lparr>Sequence = ucast s, MachineID = m, Timestamp = df, ID_of = pack df m s\<rparr>"
  using rt_seq0[of df m s] rt_mid0[of df m s] rt_ts0[of df m s]
  by (simp add: ParseID_mask df_tb[OF assms(1)] m_tb[OF assms(2)] s_tb[OF assms(3)])

lemma seq_le: "Sequence (ParseID i) \<le> 4095"
  by (simp add: ParseID_eq word_and_le1)

lemma mid_tb: "drop_bit 12 ((i::uint64) AND push_bit 12 (mask 9)) = take_bit 9 (drop_bit 12 i)"
  by (rule bit_word_eqI) (auto simp add: bit_simps)

lemma mid_le: "MachineID (ParseID i) \<le> 511"
proof -
  have eq: "MachineID (ParseID i) = take_bit 9 (drop_bit 12 i)"
    by (simp only: ParseID_mask mid_tb SID.select_convs)
  have "unat (take_bit 9 (drop_bit 12 i)) = take_bit 9 (unat (drop_bit 12 i))"
    by (simp only: unsigned_take_bit_eq)
  also have "\<dots> \<le> mask 9" by (rule take_bit_nat_less_eq_mask)
  also have "(mask 9 :: nat) = 511" by (simp add: mask_eq_exp_minus_1)
  finally have "unat (take_bit 9 (drop_bit 12 i)) \<le> unat (511 :: uint64)" by simp
  then show ?thesis by (simp only: eq word_le_nat_alt)
qed

lemma ts_le: "Timestamp (ParseID i) \<le> 8796093022207"
proof -
  have eq: "Timestamp (ParseID i) = drop_bit 21 i"
    by (simp only: ParseID_mask SID.select_convs)
  have "unat i < 2 ^ 64" using unsigned_less[of i] by simp
  then have "unat i div 2 ^ 21 < 2 ^ 43" by simp
  moreover have "unat (drop_bit 21 i) = unat i div 2 ^ 21"
    using unat_drop_bit_eq[of 21 i] drop_bit_eq_div[of 21 "unat i"] by (rule trans)
  ultimately have "unat (drop_bit 21 i) \<le> unat (8796093022207 :: uint64)" by simp
  then show ?thesis by (simp only: eq word_le_nat_alt)
qed

section \<open>Milliseconds and signed arithmetic\<close>

lemma sint_int64_range: "- 9223372036854775808 \<le> sint (w::int64) \<and> sint w \<le> 9223372036854775807"
  using sint_ge[of w] sint_lt[of w] by simp

lemma sint_of_int64: 
  assumes "- 9223372036854775808 \<le> k" "k \<le> 9223372036854775807"
  shows "sint (word_of_int k :: int64) = k"
proof -
  have "signed_take_bit 63 k = k"
    using assms by (simp add: signed_take_bit_int_eq_self)
  then show ?thesis by (simp add: sint_sbintrunc')
qed

lemma sdiv_million_bounds:
  assumes "- 9223372036854775808 \<le> (k::int)" "k \<le> 9223372036854775807"
  shows "- 9223372036854 \<le> k sdiv 1000000 \<and> k sdiv 1000000 \<le> 9223372036854"
proof (cases "0 \<le> k")
  case True
  then have "k sdiv 1000000 = k div 1000000" by (simp add: signed_divide_int_def sgn_if)
  moreover have "k div 1000000 \<le> 9223372036854775807 div 1000000"
    using assms(2) by (intro zdiv_mono1) simp_all
  moreover have "0 \<le> k div 1000000" using True by simp
  ultimately show ?thesis by simp
next
  case False
  then have "k sdiv 1000000 = - ((- k) div 1000000)" by (simp add: signed_divide_int_def sgn_if)
  moreover have "(- k) div 1000000 \<le> 9223372036854775808 div 1000000"
    using assms(1) by (intro zdiv_mono1) simp_all
  moreover have "0 \<le> (- k) div 1000000" using False by simp
  ultimately show ?thesis by simp
qed

lemma sint_int64_div: "sint (int64_div ns 1000000) = sint ns sdiv 1000000"
proof -
  have "sint (1000000 :: int64) = 1000000" by simp
  moreover have "sint (word_of_int (sint ns sdiv 1000000) :: int64) = sint ns sdiv 1000000"
    using sdiv_million_bounds[of "sint ns"] sint_int64_range[of ns]
    by (intro sint_of_int64) simp_all
  ultimately show ?thesis by (simp only: int64_div_def)
qed

lemma millis_ok_div: "millis_ok (int64_div ns 1000000)"
  using sdiv_million_bounds[of "sint ns"] sint_int64_range[of ns]
  by (simp only: millis_ok_def sint_int64_div)

lemma sint_sub_millis:
  assumes "millis_ok a" "millis_ok b"
  shows "sint (a - b) = sint a - sint b"
proof -
  have "signed_take_bit 63 (sint a - sint b) = sint a - sint b"
    using assms by (intro signed_take_bit_int_eq_self) (simp_all add: millis_ok_def)
  then show ?thesis by (simp add: sint_word_ariths)
qed

lemma millis_ok_millis: "millis_ok (millis ns)"
  by (simp add: millis_def millis_ok_div)

lemma uint_eq_sint:
  assumes "0 \<le> sint (w::int64)" shows "uint w = sint w"
proof -
  have "sint w < 2 ^ 64" using sint_lt[of w] by simp
  then have "take_bit 64 (sint w) = sint w"
    using assms by (simp add: take_bit_int_eq_self)
  then show ?thesis by (simp add: uint_sint)
qed

lemma sint_eq_uint_small:
  assumes "uint (w::int64) < 9223372036854775808" shows "sint w = uint w"
proof -
  have "0 \<le> uint w" by simp
  then have "- 9223372036854775808 \<le> uint w" by linarith
  then have "signed_take_bit 63 (uint w) = uint w"
    using assms by (intro signed_take_bit_int_eq_self) simp_all
  then show ?thesis by (simp add: sint_uint)
qed

lemma in_range_iff:
  "\<not> (df <s 0 \<or> MaxTimestamp < df) \<longleftrightarrow> 0 \<le> sint df \<and> sint df \<le> 8796093022207"
proof
  assume "\<not> (df <s 0 \<or> MaxTimestamp < df)"
  then have "uint df \<le> 8796093022207"
    by (simp add: MaxTimestamp_def TimestampLength_def word_less_def not_less)
  then show "0 \<le> sint df \<and> sint df \<le> 8796093022207"
    using sint_eq_uint_small[of df] by simp
next
  assume a: "0 \<le> sint df \<and> sint df \<le> 8796093022207"
  then have "uint df \<le> 8796093022207" using uint_eq_sint[of df] by simp
  then show "\<not> (df <s 0 \<or> MaxTimestamp < df)"
    using a by (simp add: MaxTimestamp_def TimestampLength_def word_less_def not_less word_sless_alt)
qed

lemma in_range_le: "0 \<le> sint df \<and> sint df \<le> 8796093022207 \<Longrightarrow> df \<le> (8796093022207 :: uint64)"
  using uint_eq_sint[of df] by (simp add: word_le_def)

lemma sint_elapsedTime:
  assumes "millis_ok now"
  shows "sint (elapsedTime now st) = sint now - sint (millis st)"
  using sint_sub_millis[OF assms millis_ok_div[of st]]
  by (simp add: elapsedTime_def millis_def)

lemma sdiv_mono:
  assumes "(a::int) \<le> b"
  shows "a sdiv 1000000 \<le> b sdiv 1000000"
proof -
  have pos: "\<And>k::int. 0 \<le> k \<Longrightarrow> k sdiv 1000000 = k div 1000000"
    by (simp add: signed_divide_int_def sgn_if)
  have neg: "\<And>k::int. k < 0 \<Longrightarrow> k sdiv 1000000 = - ((- k) div 1000000)"
    by (simp add: signed_divide_int_def sgn_if)
  consider "0 \<le> a" | "a < 0" "0 \<le> b" | "b < 0" using assms by linarith
  then show ?thesis
  proof cases
    case 1
    then have "0 \<le> b" using assms by simp
    then show ?thesis using 1 assms by (simp add: pos zdiv_mono1)
  next
    case 2
    have "0 \<le> (- a) div 1000000" using 2(1) by simp
    moreover have "0 \<le> b div 1000000" using 2(2) by simp
    ultimately show ?thesis using 2 by (simp add: pos neg)
  next
    case 3
    then have "a < 0" using assms by simp
    moreover have "(- b) div 1000000 \<le> (- a) div 1000000"
      using assms by (intro zdiv_mono1) simp_all
    ultimately show ?thesis using 3 by (simp add: neg)
  qed
qed

lemma millis_mono: "a \<le>s b \<Longrightarrow> millis a \<le>s millis b"
  by (simp add: word_sle_eq millis_def sint_int64_div sdiv_mono)

lemma uint_ucast16: "uint (ucast (w::uint16) :: uint64) = uint w"
  by (rule uint_up_ucast) (simp add: is_up)

lemma ucast16_le: "(ucast (a::uint16) :: uint64) \<le> ucast (b::uint16) \<longleftrightarrow> a \<le> b"
  by (simp add: word_le_def uint_ucast16)

lemma sle_refl: "a \<le>s a"
  by (simp add: word_sle_eq)

lemma sle_trans: "a \<le>s b \<Longrightarrow> b \<le>s c \<Longrightarrow> a \<le>s c"
  by (simp add: word_sle_eq)

lemma sless_imp_sle: "a <s b \<Longrightarrow> a \<le>s b"
  by (simp add: word_sle_eq word_sless_alt)

lemma not_sless_sle: "\<not> a <s b \<Longrightarrow> b \<le>s a"
  by (simp add: word_sle_eq word_sless_alt)

lemma sle_cases: "a \<le>s b \<Longrightarrow> a <s b \<or> a = b"
  using signed.le_less by blast

lemma word_less_of_sint:
  assumes "0 \<le> sint (a::int64)" "sint a < sint (b::int64)"
  shows "a < b"
proof -
  have "uint a = sint a" using assms(1) by (rule uint_eq_sint)
  moreover have "uint b = sint b" using assms by (intro uint_eq_sint) simp
  ultimately show ?thesis using assms(2) by (simp add: word_less_def)
qed

section \<open>The loops\<close>

lemma frame_refl: "frame s s"
  by (simp add: frame_def)

lemma frame_trans: "frame s s' \<Longrightarrow> frame s' s'' \<Longrightarrow> frame s s''"
  by (simp add: frame_def)

lemma frame_tick: "frame s (s\<lparr>tick := Suc (tick s)\<rparr>)"
  by (simp add: frame_def)

lemma frame_rstate: "frame s (s\<lparr>rstate := r\<rparr>)"
  by (simp add: frame_def)

lemma sless_trans: "a <s b \<Longrightarrow> b <s c \<Longrightarrow> a <s c"
  by (simp add: word_sless_alt)

lemma wait_Some_aux:
  assumes "waitForNextMillis l s = Some y"
  shows "l <s fst y \<and> frame s (snd y) \<and> rstate (snd y) = rstate s \<and> tick s < tick (snd y) \<and>
     fst y = millis (clock s (tick (snd y) - 1))"
proof (rule waitForNextMillis.raw_induct
    [where P = "\<lambda>l s y. l <s fst y \<and> frame s (snd y) \<and> rstate (snd y) = rstate s \<and>
       tick s < tick (snd y) \<and> fst y = millis (clock s (tick (snd y) - 1))", OF _ assms],
    goal_cases)
  case (1 wait l s y)
  show ?case
  proof (cases "l <s millis (clock s (tick s))")
    case True
    with 1(2) show ?thesis
      by (auto simp add: currentMillis_def millis_def frame_def)
  next
    case False
    with 1(2) have "wait l (s\<lparr>tick := Suc (tick s)\<rparr>) = Some y"
      by (simp add: currentMillis_def millis_def)
    from 1(1)[OF this] show ?thesis
      by (auto simp add: frame_def)
  qed
qed

lemma wait_Some:
  assumes "waitForNextMillis l s = Some (now, s')"
  shows "l <s now" "frame s s'" "rstate s' = rstate s" "tick s < tick s'"
    "now = millis (clock s (tick s' - 1))"
  using wait_Some_aux[OF assms] by auto

lemma loop_post_exit: "\<not> MaxSequence \<le> seq \<Longrightarrow> loop_post R now seq s (Inr (now, seq), s)"
  by (simp add: loop_post_def frame_refl)

lemma loop_post_err:
  assumes "MaxSequence \<le> seq" "waitForNextMillis now s = Some (n1, s1)"
  shows "loop_post R now seq s (Inl e, s1\<lparr>rstate := r\<rparr>)"
  using assms(1) frame_trans[OF wait_Some(2)[OF assms(2)] frame_rstate[of s1 r]]
  by (simp add: loop_post_def)

lemma loop_post_step:
  assumes "MaxSequence \<le> seq" and w: "waitForNextMillis now s = Some (n1, s1)"
    and R: "R n1 (rstate s1) = (Inr q, r)"
    and IH: "loop_post R n1 q (s1\<lparr>rstate := r\<rparr>) y"
  shows "loop_post R now seq s y"
proof -
  note ws = wait_Some[OF w]
  have fr: "frame s (snd y)"
    using frame_trans[OF frame_trans[OF ws(2) frame_rstate[of s1 r]]] IH
    by (simp add: loop_post_def)
  show ?thesis
  proof (cases "fst y")
    case (Inl e)
    then show ?thesis using fr assms(1) by (simp add: loop_post_def)
  next
    case (Inr p)
    obtain now' seq' where p: "p = (now', seq')" by (cases p)
    from IH Inr p have lt: "seq' < MaxSequence"
      and alt: "now' = n1 \<and> seq' = q \<and> snd y = s1\<lparr>rstate := r\<rparr> \<or>
           n1 <s now' \<and> tick s1 < tick (snd y) \<and>
           now' = millis (clock s1 (tick (snd y) - 1)) \<and>
           (\<exists>r. R now' r = (Inr seq', rstate (snd y)))"
      by (auto simp add: loop_post_def)
    have ck: "clock s1 = clock s" using ws(2) by (simp add: frame_def)
    from alt have "now <s now' \<and> tick s < tick (snd y) \<and>
           now' = millis (clock s (tick (snd y) - 1)) \<and>
           (\<exists>r. R now' r = (Inr seq', rstate (snd y)))"
    proof
      assume a: "now' = n1 \<and> seq' = q \<and> snd y = s1\<lparr>rstate := r\<rparr>"
      then show ?thesis using ws R by auto
    next
      assume a: "n1 <s now' \<and> tick s1 < tick (snd y) \<and>
           now' = millis (clock s1 (tick (snd y) - 1)) \<and>
           (\<exists>r. R now' r = (Inr seq', rstate (snd y)))"
      then show ?thesis using ws(1,4) sless_trans[of now n1 now'] ck by auto
    qed
    then show ?thesis using fr lt assms(1) Inr p by (auto simp add: loop_post_def)
  qed
qed

lemma resolveLoop_post:
  assumes "resolveLoop R now seq s = Some y"
  shows "loop_post R now seq s y"
proof (rule resolveLoop.raw_induct[where P = loop_post, OF _ assms], goal_cases)
  case (1 loop R now seq s y)
  show ?case
  proof (cases "MaxSequence \<le> seq")
    case False
    with 1(2) show ?thesis by (auto simp add: loop_post_exit)
  next
    case True
    with 1(2) obtain n1 s1 where w: "waitForNextMillis now s = Some (n1, s1)"
      and rest: "(case R n1 (rstate s1) of
            (Inl err, r) \<Rightarrow> Some (Inl err, s1\<lparr>rstate := r\<rparr>)
          | (Inr seq', r) \<Rightarrow> loop R n1 seq' (s1\<lparr>rstate := r\<rparr>)) = Some y"
      by (auto simp add: bind_eq_Some_conv)
    obtain res r where Rr: "R n1 (rstate s1) = (res, r)" by (cases "R n1 (rstate s1)")
    show ?thesis
    proof (cases res)
      case (Inl e)
      with rest Rr have "y = (Inl e, s1\<lparr>rstate := r\<rparr>)" by simp
      then show ?thesis using loop_post_err[OF True w] by simp
    next
      case (Inr q)
      with rest Rr have "loop R n1 q (s1\<lparr>rstate := r\<rparr>) = Some y" by simp
      from 1(1)[OF this] show ?thesis
        using loop_post_step[OF True w] Rr Inr by simp
    qed
  qed
qed

text \<open>The wait ends as soon as the clock shows a later millisecond.\<close>

lemma wait_returns:
  assumes "tick s \<le> k" "l <s millis (clock s k)"
  shows "\<exists>y. waitForNextMillis l s = Some y"
  using assms
proof (induction "k - tick s" arbitrary: s)
  case 0
  then have "l <s millis (clock s (tick s))" by simp
  then show ?case
    by (subst waitForNextMillis.simps) (simp add: currentMillis_def millis_def)
next
  case (Suc n)
  show ?case
  proof (cases "l <s millis (clock s (tick s))")
    case True
    then show ?thesis
      by (subst waitForNextMillis.simps) (simp add: currentMillis_def millis_def)
  next
    case False
    let ?s = "s\<lparr>tick := Suc (tick s)\<rparr>"
    have "n = k - tick ?s" "tick ?s \<le> k" "l <s millis (clock ?s k)"
      using Suc.hyps(2) Suc.prems by simp_all
    from Suc.hyps(1)[OF this] obtain y where "waitForNextMillis l ?s = Some y" by blast
    with False show ?thesis
      by (subst waitForNextMillis.simps) (simp add: currentMillis_def millis_def)
  qed
qed

text \<open>The wait returns the first value of the clock that shows a later millisecond.\<close>

lemma wait_exact:
  assumes "first_later l s k"
  shows "waitForNextMillis l s = Some (millis (clock s k), s\<lparr>tick := Suc k\<rparr>)"
  using assms
proof (induction "k - tick s" arbitrary: s)
  case 0
  then have k: "k = tick s" and lt: "l <s millis (clock s (tick s))"
    by (auto simp add: first_later_def)
  show ?case
    by (subst waitForNextMillis.simps) (simp add: currentMillis_def k lt[unfolded millis_def] millis_def)
next
  case (Suc n)
  let ?s = "s\<lparr>tick := Suc (tick s)\<rparr>"
  from Suc.hyps(2) have lt: "tick s < k" by simp
  with Suc.prems have no: "\<not> l <s millis (clock s (tick s))"
    by (auto simp add: first_later_def)
  have fl: "first_later l ?s k"
    using Suc.prems lt by (auto simp add: first_later_def)
  have "n = k - tick ?s" using Suc.hyps(2) by simp
  from Suc.hyps(1)[OF this fl]
  have "waitForNextMillis l ?s = Some (millis (clock s k), s\<lparr>tick := Suc k\<rparr>)" by simp
  with no show ?case
    by (subst waitForNextMillis.simps) (simp add: currentMillis_def millis_def)
qed

lemma resolveLoop_below: "seq < MaxSequence \<Longrightarrow> resolveLoop R now seq s = Some (Inr (now, seq), s)"
  by (subst resolveLoop.simps) (simp add: word_le_nat_alt word_less_nat_alt)

lemma resolveLoop_one_round:
  assumes "MaxSequence \<le> seq" "waitForNextMillis now s = Some (n1, s1)"
    "R n1 (rstate s1) = (Inr q, r)" "q < MaxSequence"
  shows "resolveLoop R now seq s = Some (Inr (n1, q), s1\<lparr>rstate := r\<rparr>)"
  by (subst resolveLoop.simps) (simp add: assms resolveLoop_below)

lemma resolveLoop_step:
  assumes "MaxSequence \<le> seq" "waitForNextMillis now s = Some (n1, s1)"
    "R n1 (rstate s1) = (Inr q, r)"
  shows "resolveLoop R now seq s = resolveLoop R n1 q (s1\<lparr>rstate := r\<rparr>)"
  by (subst resolveLoop.simps) (simp add: assms)

lemma resolveLoop_error:
  assumes "MaxSequence \<le> seq" "waitForNextMillis now s = Some (n1, s1)"
    "R n1 (rstate s1) = (Inl e, r)"
  shows "resolveLoop R now seq s = Some (Inl e, s1\<lparr>rstate := r\<rparr>)"
  by (subst resolveLoop.simps) (simp add: assms)

text \<open>
  The loop ends after one wait when the clock gets to a later millisecond and the resolver
  answers below the ceiling for every later millisecond.
\<close>

lemma resolveLoop_returns:
  assumes "MaxSequence \<le> seq" "tick s \<le> k" "now <s millis (clock s k)"
    and fresh: "\<And>n1 r. now <s n1 \<Longrightarrow> \<exists>q r'. R n1 r = (Inr q, r') \<and> q < MaxSequence"
  shows "\<exists>n1 q s'. resolveLoop R now seq s = Some (Inr (n1, q), s') \<and> now <s n1 \<and> q < MaxSequence"
proof -
  from wait_returns[OF assms(2,3)] obtain n1 s1 where w: "waitForNextMillis now s = Some (n1, s1)"
    by (cases) auto
  have lt: "now <s n1" using wait_Some(1)[OF w] .
  from fresh[OF lt, of "rstate s1"] obtain q r where q: "R n1 (rstate s1) = (Inr q, r)" "q < MaxSequence"
    by blast
  have "resolveLoop R now seq s = Some (Inr (n1, q), s1\<lparr>rstate := r\<rparr>)"
    using assms(1) w q by (rule resolveLoop_one_round)
  with lt q(2) show ?thesis by blast
qed

section \<open>The two parts of NextID\<close>

lemma NextID_acquire:
  "NextID A s0 =
     (case acquire A s0 of
        None \<Rightarrow> None
      | Some (Inl err, s) \<Rightarrow> Some ((0, Some err), s)
      | Some (Inr (now, seq), s3) \<Rightarrow>
          let s4 = s3\<lparr>lastTimestamp := now\<rparr>;
              df = elapsedTime now (startTime s4) in
          if df <s 0 \<or> MaxTimestamp < df then Some ((0, Some EpochRangeError), s4)
          else Some ((pack df (machineID s4) seq, None), s4))"
  by (simp add: NextID_def acquire_def Let_def split: prod.splits sum.splits option.splits)

lemma acquire_unfold:
  "acquire A s =
     (if refused s then Some (Inl ClockBackwardError, s\<lparr>tick := Suc (tick s)\<rparr>)
      else
        (case callSequenceResolver A s (first_now s) (rstate s) of
           (Inl err, r) \<Rightarrow> Some (Inl (ResolverError err), first_state s\<lparr>rstate := r\<rparr>)
         | (Inr seq, r) \<Rightarrow>
             (case resolveLoop (callSequenceResolver A s) (first_now s) seq (first_state s\<lparr>rstate := r\<rparr>) of
                None \<Rightarrow> None
              | Some (Inl err, s3) \<Rightarrow> Some (Inl (ResolverError err), s3)
              | Some (Inr (now, seq), s3) \<Rightarrow> Some (Inr (now, seq), s3))))"
  by (simp add: acquire_def currentMillis_def Let_def callSequenceResolver_def refused_def
      slept_def first_now_def first_state_def millis_def
      cong: prod.case_cong sum.case_cong option.case_cong)

lemma acquire_refused:
  "refused s \<Longrightarrow> acquire A s = Some (Inl ClockBackwardError, s\<lparr>tick := Suc (tick s)\<rparr>)"
  by (simp add: acquire_unfold)

lemma frame_first_state: "frame s (first_state s\<lparr>rstate := r\<rparr>)"
  by (simp add: frame_def first_state_def)

lemma acquire_Inl:
  assumes "acquire A s = Some (Inl e, s')"
  shows "frame s s'" "e = ClockBackwardError \<longleftrightarrow> refused s" "e \<noteq> EpochRangeError"
proof -
  have "frame s s' \<and> (e = ClockBackwardError \<longleftrightarrow> refused s) \<and> e \<noteq> EpochRangeError"
  proof (cases "refused s")
    case True
    then show ?thesis using assms by (auto simp add: acquire_refused frame_tick)
  next
    case False
    obtain res r where Rr: "callSequenceResolver A s (first_now s) (rstate s) = (res, r)"
      by (cases "callSequenceResolver A s (first_now s) (rstate s)")
    show ?thesis
    proof (cases res)
      case (Inl err)
      with assms False Rr show ?thesis
        by (auto simp add: acquire_unfold frame_first_state)
    next
      case (Inr q)
      with assms False Rr obtain err where
        l: "resolveLoop (callSequenceResolver A s) (first_now s) q (first_state s\<lparr>rstate := r\<rparr>)
             = Some (Inl err, s')" and e: "e = ResolverError err"
        by (auto simp add: acquire_unfold split: option.splits sum.splits prod.splits)
      from resolveLoop_post[OF l] have "frame (first_state s\<lparr>rstate := r\<rparr>) s'"
        by (simp add: loop_post_def)
      then show ?thesis using e False frame_trans[OF frame_first_state] by auto
    qed
  qed
  then show "frame s s'" "e = ClockBackwardError \<longleftrightarrow> refused s" "e \<noteq> EpochRangeError"
    by simp_all
qed

lemma acquire_Inr:
  assumes "acquire A s = Some (Inr (now, seq), s')"
  shows "acquired (callSequenceResolver A s) s now seq s'"
proof -
  let ?R = "callSequenceResolver A s"
  from assms have nr: "\<not> refused s" by (auto simp add: acquire_refused)
  obtain res r where Rr: "?R (first_now s) (rstate s) = (res, r)"
    by (cases "?R (first_now s) (rstate s)")
  let ?s2 = "first_state s\<lparr>rstate := r\<rparr>"
  from assms nr Rr obtain q where q: "res = Inr q"
    and l: "resolveLoop ?R (first_now s) q ?s2 = Some (Inr (now, seq), s')"
    by (auto simp add: acquire_unfold split: option.splits sum.splits prod.splits)
  from resolveLoop_post[OF l] have fr: "frame ?s2 s'" and lt: "seq < MaxSequence"
    and alt: "now = first_now s \<and> seq = q \<and> s' = ?s2 \<or>
           first_now s <s now \<and> tick ?s2 < tick s' \<and>
           now = millis (clock ?s2 (tick s' - 1)) \<and> (\<exists>r. ?R now r = (Inr seq, rstate s'))"
    by (auto simp add: loop_post_def)
  have t2: "tick s < tick ?s2" "clock ?s2 = clock s" by (simp_all add: first_state_def)
  have fr': "frame s s'" using frame_trans[OF frame_first_state fr] .
  have tk: "tick s < tick s'" using t2(1) fr by (simp add: frame_def)
  from alt have "(now = first_now s \<and> ?R now (rstate s) = (Inr seq, rstate s') \<or>
      first_now s <s now \<and> (\<exists>r. ?R now r = (Inr seq, rstate s'))) \<and>
     (\<exists>i. tick s \<le> i \<and> i < tick s' \<and> now = millis (clock s i))"
  proof
    assume a: "now = first_now s \<and> seq = q \<and> s' = ?s2"
    have "\<exists>i. tick s \<le> i \<and> i < tick ?s2 \<and> first_now s = millis (clock s i)"
    proof (cases "slept s")
      case True
      then have "tick s \<le> Suc (tick s) \<and> Suc (tick s) < tick ?s2 \<and>
          first_now s = millis (clock s (Suc (tick s)))"
        by (simp add: first_now_def first_state_def)
      then show ?thesis by blast
    next
      case False
      then have "tick s \<le> tick s \<and> tick s < tick ?s2 \<and> first_now s = millis (clock s (tick s))"
        by (simp add: first_now_def first_state_def)
      then show ?thesis by blast
    qed
    with a Rr q show ?thesis by auto
  next
    assume a: "first_now s <s now \<and> tick ?s2 < tick s' \<and>
           now = millis (clock ?s2 (tick s' - 1)) \<and> (\<exists>r. ?R now r = (Inr seq, rstate s'))"
    then have "tick s \<le> tick s' - 1 \<and> tick s' - 1 < tick s' \<and> now = millis (clock s (tick s' - 1))"
      using t2 by auto
    then have "\<exists>i. tick s \<le> i \<and> i < tick s' \<and> now = millis (clock s i)" by blast
    with a show ?thesis by blast
  qed
  with nr fr' tk lt show ?thesis by (simp add: acquired_def)
qed

lemma NextID_cases:
  assumes "NextID A s = Some ((i, err), s')"
  obtains (fail) e where "acquire A s = Some (Inl e, s')" "i = 0" "err = Some e"
  | (range) now seq s3 where "acquire A s = Some (Inr (now, seq), s3)"
      "s' = s3\<lparr>lastTimestamp := now\<rparr>"
      "sint (elapsedTime now (startTime s)) < 0 \<or> 8796093022207 < sint (elapsedTime now (startTime s))"
      "i = 0" "err = Some EpochRangeError"
  | (ok) now seq s3 where "acquire A s = Some (Inr (now, seq), s3)"
      "s' = s3\<lparr>lastTimestamp := now\<rparr>"
      "0 \<le> sint (elapsedTime now (startTime s))" "sint (elapsedTime now (startTime s)) \<le> 8796093022207"
      "i = pack (elapsedTime now (startTime s)) (machineID s) seq" "err = None"
proof -
  from assms obtain res s3 where a: "acquire A s = Some (res, s3)"
    by (cases "acquire A s") (auto simp add: NextID_acquire)
  show thesis
  proof (cases res)
    case (Inl e)
    with assms a show thesis by (intro fail[of e]) (simp_all add: NextID_acquire)
  next
    case (Inr p)
    obtain now seq where p: "p = (now, seq)" by (cases p)
    from acquire_Inr[of A s now seq s3] a Inr p
    have fr: "startTime s3 = startTime s" "machineID s3 = machineID s"
      by (simp_all add: acquired_def frame_def)
    let ?df = "elapsedTime now (startTime s)"
    show thesis
    proof (cases "?df <s 0 \<or> MaxTimestamp < ?df")
      case True
      then have "sint ?df < 0 \<or> 8796093022207 < sint ?df"
        using in_range_iff[of ?df] by auto
      with assms a Inr p fr True show thesis
        by (intro range[of now seq s3]) (simp_all add: NextID_acquire Let_def)
    next
      case False
      then have "0 \<le> sint ?df \<and> sint ?df \<le> 8796093022207"
        using in_range_iff[of ?df] by simp
      with assms a Inr p fr False show thesis
        by (intro ok[of now seq s3]) (simp_all add: NextID_acquire Let_def)
    qed
  qed
qed

lemma acquired_millis_ok:
  assumes "acquired R s now seq s'" shows "millis_ok now"
proof -
  from assms obtain i where "now = millis (clock s i)" by (auto simp add: acquired_def)
  then show ?thesis by (simp add: millis_ok_millis)
qed

lemma acquired_first_now: "acquired R s now seq s' \<Longrightarrow> first_now s \<le>s now"
  by (auto simp add: acquired_def sle_refl sless_imp_sle)

lemma watermark_le_first_now:
  assumes "slept s \<longrightarrow> lastTimestamp s \<le>s millis (clock s (Suc (tick s)))"
  shows "lastTimestamp s \<le>s first_now s"
  using assms by (cases "slept s") (simp_all add: first_now_def slept_def not_sless_sle)

lemma acquire_startTime:
  assumes "acquire A s = Some (Inr (now, seq), s3)"
  shows "sint (elapsedTime now (startTime s)) = sint now - sint (millis (startTime s))"
  using acquired_millis_ok[OF acquire_Inr[OF assms]] by (rule sint_elapsedTime)

lemma NextID_refused:
  assumes "refused s"
  shows "NextID A s = Some ((0, Some ClockBackwardError), s\<lparr>tick := Suc (tick s)\<rparr>)"
  by (simp add: NextID_acquire acquire_refused[OF assms])

lemma refusedI:
  assumes "millis_ok (lastTimestamp s)"
    and "5000 < sint (lastTimestamp s) - sint (millis (clock s (tick s)))"
  shows "refused s"
proof -
  let ?now = "millis (clock s (tick s))"
  have "sint (lastTimestamp s - ?now) = sint (lastTimestamp s) - sint ?now"
    using assms(1) millis_ok_millis by (rule sint_sub_millis)
  moreover have "sint (5000 :: int64) = 5000" by simp
  ultimately show ?thesis
    using assms(2) by (simp add: refused_def Let_def word_sless_alt)
qed

text \<open>\<open>NextID\<close> returns an ID when its loop returns and the elapsed time is in range.\<close>

lemma NextID_of_loop:
  assumes "\<not> refused s"
    and "callSequenceResolver A s (first_now s) (rstate s) = (Inr q0, r0)"
    and "resolveLoop (callSequenceResolver A s) (first_now s) q0 (first_state s\<lparr>rstate := r0\<rparr>) =
       Some (Inr (now, seq), s3)"
    and "0 \<le> sint (elapsedTime now (startTime s))"
    and "sint (elapsedTime now (startTime s)) \<le> 2 ^ 43 - 1"
  shows "NextID A s =
     Some ((pack (elapsedTime now (startTime s)) (machineID s) seq, None),
       s3\<lparr>lastTimestamp := now\<rparr>)"
proof -
  have acq: "acquire A s = Some (Inr (now, seq), s3)"
    using assms(1,2,3) by (simp add: acquire_unfold)
  from acquire_Inr[OF acq] have fr: "startTime s3 = startTime s" "machineID s3 = machineID s"
    by (simp_all add: acquired_def frame_def)
  have "\<not> (elapsedTime now (startTime s) <s 0 \<or> MaxTimestamp < elapsedTime now (startTime s))"
    using assms(4,5) in_range_iff[of "elapsedTime now (startTime s)"] by simp
  then show ?thesis by (simp add: NextID_acquire acq fr Let_def)
qed

section \<open>Evaluating the examples\<close>

lemma div_T: "int64_div 1226358001000000000 1000000 = 1226358001000"
  by (simp add: int64_div_def signed_divide_int_def)

lemma div_default: "int64_div defaultStartTime 1000000 = 1226358000000"
  by (simp add: int64_div_def signed_divide_int_def defaultStartTime_def)

lemmas ex_simps = example_state_def step_clock_def counterResolver_def callSequenceResolver_def
  refused_def slept_def first_now_def first_state_def millis_def Let_def word_sless_alt word_sle_eq
  MaxSequence_eq MaxTimestamp_eq

lemma literal_acquire:
  "acquire A literal_state =
     Some (Inr (1226358001000, 42),
       example_state 5 defaultStartTime 0 (1226358001000, 42)
         1226358001000000000 1226358001000000000 1)"
  by (simp add: literal_state_def acquire_unfold resolveLoop.simps ex_simps div_T)

lemma literal_NextID:
  "NextID A literal_state = Some ((2097172522, None), literal_next_state)"
  by (simp add: NextID_acquire literal_acquire elapsedTime_def)
     (simp add: literal_next_state_def ex_simps div_default pack_eq)

lemma div_back: "int64_div 1226358004000000000 1000000 = 1226358004000"
  by (simp add: int64_div_def signed_divide_int_def)

lemma div_before: "int64_div 1226357999000000000 1000000 = 1226357999000"
  by (simp add: int64_div_def signed_divide_int_def)

lemma div_T1: "int64_div 1226358001001000000 1000000 = 1226358001001"
  by (simp add: int64_div_def signed_divide_int_def)

lemma div_drift: "int64_div 1226358001099000000 1000000 = 1226358001099"
  by (simp add: int64_div_def signed_divide_int_def)

lemma div_recover: "int64_div 1226358001100000000 1000000 = 1226358001100"
  by (simp add: int64_div_def signed_divide_int_def)

lemma div_1800: "int64_div (- 5364662400000000000) 1000000 = - 5364662400000"
  by (simp add: int64_div_def signed_divide_int_def)

lemma div_2026: "int64_div 1793318400000000000 1000000 = 1793318400000"
  by (simp add: int64_div_def signed_divide_int_def)

lemma before_epoch_acquire:
  "acquire A before_epoch_state =
     Some (Inr (1226357999000, 0),
       example_state 5 defaultStartTime 0 (1226357999000, 0)
         1226357999000000000 1226357999000000000 1)"
  by (simp add: before_epoch_state_def acquire_unfold resolveLoop.simps ex_simps div_before)

lemma before_epoch_NextID:
  "NextID A before_epoch_state =
     Some ((0, Some EpochRangeError),
       example_state 5 defaultStartTime 1226357999000 (1226357999000, 0)
         1226357999000000000 1226357999000000000 1)"
  by (simp add: NextID_acquire before_epoch_acquire elapsedTime_def)
     (simp add: ex_simps div_default)

lemmas drift_simps = drift_state_def drift_clock_def counterResolver_def callSequenceResolver_def
  refused_def slept_def first_now_def first_state_def millis_def Let_def word_sless_alt word_sle_eq
  MaxSequence_eq MaxTimestamp_eq

lemma drift_first_acquire:
  "acquire A drift_first_state =
     Some (Inr (1226358001100, 0), drift_state 1 0 (1226358001100, 0))"
  by (simp add: drift_first_state_def acquire_unfold resolveLoop.simps drift_simps div_recover)

lemma drift_first_NextID:
  "NextID A drift_first_state = Some ((2306887680, None), drift_second_state)"
  by (simp add: NextID_acquire drift_first_acquire elapsedTime_def)
     (simp add: drift_second_state_def drift_simps div_default pack_eq)

lemma drift_second_acquire:
  "acquire A drift_second_state =
     Some (Inr (1226358001099, 0), drift_state 3 1226358001100 (1226358001099, 0))"
  by (simp add: drift_second_state_def acquire_unfold resolveLoop.simps drift_simps div_T div_drift)

lemma drift_second_NextID:
  "NextID A drift_second_state = Some ((2304790528, None), drift_third_state)"
  by (simp add: NextID_acquire drift_second_acquire elapsedTime_def)
     (simp add: drift_third_state_def drift_simps div_default pack_eq)

lemma recovering_acquire:
  "acquire A recovering_state =
   Some (Inr (1226358001100, 0),
     example_state 5 defaultStartTime 1226358001100 (1226358001100, 0)
       1226358001000000000 1226358001100000000 2)"
  by (simp add: recovering_state_def acquire_unfold resolveLoop.simps ex_simps div_T div_recover)

lemma recovering_NextID:
  "NextID A recovering_state =
   Some ((2306887680, None),
     example_state 5 defaultStartTime 1226358001100 (1226358001100, 0)
       1226358001000000000 1226358001100000000 2)"
  by (simp add: NextID_acquire recovering_acquire elapsedTime_def)
     (simp add: ex_simps div_default pack_eq)

lemma old_epoch_acquire:
  "acquire A old_epoch_state =
   Some (Inr (1793318400000, 0),
     example_state 0 (- 5364662400000000000) 0 (1793318400000, 0)
       1793318400000000000 1793318400000000000 1)"
  by (simp add: old_epoch_state_def acquire_unfold resolveLoop.simps ex_simps div_2026)

lemma old_epoch_NextID:
  "NextID A old_epoch_state =
   Some ((15011373750681600000, None),
     example_state 0 (- 5364662400000000000) 1793318400000 (1793318400000, 0)
       1793318400000000000 1793318400000000000 1)"
  by (simp add: NextID_acquire old_epoch_acquire elapsedTime_def)
     (simp add: ex_simps div_1800 pack_eq)

lemma literal_second_acquire:
  "acquire A literal_next_state =
     Some (Inr (1226358001000, 43),
       example_state 5 defaultStartTime 1226358001000 (1226358001000, 43)
         1226358001000000000 1226358001000000000 2)"
  by (simp add: literal_next_state_def acquire_unfold resolveLoop.simps ex_simps div_T)

lemma literal_second_NextID:
  "NextID A literal_next_state =
     Some ((2097172523, None),
       example_state 5 defaultStartTime 1226358001000 (1226358001000, 43)
         1226358001000000000 1226358001000000000 2)"
  by (simp add: NextID_acquire literal_second_acquire elapsedTime_def)
     (simp add: ex_simps div_default pack_eq)

lemma counterResolver_monotone: "resolver_monotone counterResolver"
  unfolding resolver_monotone_def
proof (intro allI impI)
  fix ms r a r' b r''
  assume h: "counterResolver ms r = (Inr a, r') \<and> counterResolver ms r' = (Inr b, r'') \<and>
    a < MaxSequence"
  obtain t c where r: "r = (t, c)" by (cases r)
  from h r have r': "r' = (ms, a)"
    by (auto simp add: counterResolver_def split: if_splits)
  with h have b: "b = a + 1" by (simp add: counterResolver_def)
  from h have "unat a < 4095" by (simp add: MaxSequence_eq word_less_nat_alt)
  then have "unat (a + 1) = unat a + 1" by (simp add: unat_word_ariths)
  then show "a \<le> b" using b by (simp add: word_le_nat_alt)
qed

lemma constant_clock_monotone: "clock_monotone (step_clock a a)"
  by (simp add: clock_monotone_def step_clock_def word_sle_eq)

lemmas wait_simps = wait_state_def wait_clock_def counterResolver_def callSequenceResolver_def
  refused_def slept_def first_now_def first_state_def millis_def Let_def word_sless_alt word_sle_eq
  MaxSequence_eq MaxTimestamp_eq

lemma ceiling_first_later: "first_later 1226358001000 ceiling_loop_state 2"
proof -
  have "\<And>j. Suc 0 \<le> j \<Longrightarrow> j < 2 \<Longrightarrow> j = Suc 0" by simp
  then show ?thesis
    by (auto simp add: first_later_def ceiling_loop_state_def wait_simps div_T div_T1)
qed

lemma ceiling_wait:
  "waitForNextMillis 1226358001000 ceiling_loop_state = Some (1226358001001, ceiling_waited_state)"
  using wait_exact[OF ceiling_first_later]
  by (simp add: ceiling_loop_state_def ceiling_waited_state_def wait_simps div_T1)

lemma ceiling_resolve:
  "counterResolver 1226358001001 (rstate ceiling_waited_state) = (Inr 0, (1226358001001, 0))"
  by (simp add: ceiling_waited_state_def wait_simps)

lemma ceiling_exit:
  "resolveLoop counterResolver 1226358001001 0 ceiling_end_state =
     Some (Inr (1226358001001, 0), ceiling_end_state)"
  by (rule resolveLoop_below) (simp add: MaxSequence_eq)

lemma ceiling_waited_end: "ceiling_waited_state\<lparr>rstate := (1226358001001, 0)\<rparr> = ceiling_end_state"
  by (simp add: ceiling_waited_state_def ceiling_end_state_def wait_state_def)

lemma ceiling_loop:
  "resolveLoop counterResolver 1226358001000 4095 ceiling_loop_state =
     Some (Inr (1226358001001, 0), ceiling_end_state)"
proof -
  have m: "MaxSequence \<le> 4095" by (simp add: MaxSequence_eq)
  have "resolveLoop counterResolver 1226358001000 4095 ceiling_loop_state =
      resolveLoop counterResolver 1226358001001 0
        (ceiling_waited_state\<lparr>rstate := (1226358001001, 0)\<rparr>)"
    using m ceiling_wait ceiling_resolve by (rule resolveLoop_step)
  then show ?thesis by (simp add: ceiling_waited_end ceiling_exit)
qed

lemma ceiling_resolver: "callSequenceResolver A ceiling_state = counterResolver"
  by (simp add: ceiling_state_def wait_state_def callSequenceResolver_def)

lemma ceiling_first:
  "\<not> refused ceiling_state" "first_now ceiling_state = 1226358001000"
  "first_state ceiling_state\<lparr>rstate := (1226358001000, 4095)\<rparr> = ceiling_loop_state"
  "counterResolver 1226358001000 (rstate ceiling_state) = (Inr 4095, (1226358001000, 4095))"
  by (simp_all add: ceiling_state_def ceiling_loop_state_def wait_simps div_T)

lemma ceiling_NextID:
  "NextID A ceiling_state = Some ((2099269632, None), ceiling_final_state)"
proof -
  have st: "startTime ceiling_state = defaultStartTime" "machineID ceiling_state = 5"
    by (simp_all add: ceiling_state_def wait_state_def)
  have e: "elapsedTime 1226358001001 defaultStartTime = 1001"
    by (simp add: elapsedTime_def div_default)
  have "NextID A ceiling_state =
     Some ((pack (elapsedTime 1226358001001 (startTime ceiling_state)) (machineID ceiling_state) 0, None),
       ceiling_end_state\<lparr>lastTimestamp := 1226358001001\<rparr>)"
    by (rule NextID_of_loop[where ?q0.0 = 4095 and ?r0.0 = "(1226358001000, 4095)"])
      (simp_all add: ceiling_resolver ceiling_first ceiling_loop st e)
  then show ?thesis
    by (simp add: st e pack_eq ceiling_end_state_def ceiling_final_state_def wait_state_def)
qed

lemmas countdown_simps = countdown_state_def step_clock_def countdownResolver_def
  callSequenceResolver_def refused_def slept_def first_now_def first_state_def millis_def Let_def
  word_sless_alt word_sle_eq MaxSequence_eq MaxTimestamp_eq

lemma countdown_configure:
  "SetMachineID 5 countdown_initial_state = Some (countdown_initial_state\<lparr>machineID := 5\<rparr>)"
  "SetSequenceResolver (Some countdownResolver) (countdown_initial_state\<lparr>machineID := 5\<rparr>) =
     countdown_first_state"
  by (simp_all add: SetMachineID_def SetSequenceResolver_def MaxMachineID_eq
      countdown_initial_state_def init_state_def countdown_first_state_def countdown_state_def)

lemma countdown_first_acquire:
  "acquire A countdown_first_state =
     Some (Inr (1226358001000, 4094), countdown_state 1 0 (1226358001000, 4093))"
  by (simp add: countdown_first_state_def acquire_unfold resolveLoop.simps countdown_simps div_T)

lemma countdown_first_NextID:
  "NextID A countdown_first_state = Some ((2097176574, None), countdown_second_state)"
  by (simp add: NextID_acquire countdown_first_acquire elapsedTime_def)
     (simp add: countdown_second_state_def countdown_simps div_default pack_eq)

lemma countdown_second_acquire:
  "acquire A countdown_second_state =
     Some (Inr (1226358001000, 4093), countdown_state 2 1226358001000 (1226358001000, 4092))"
  by (simp add: countdown_second_state_def acquire_unfold resolveLoop.simps countdown_simps div_T)

lemma countdown_second_NextID:
  "NextID A countdown_second_state = Some ((2097176573, None), countdown_third_state)"
  by (simp add: NextID_acquire countdown_second_acquire elapsedTime_def)
     (simp add: countdown_third_state_def countdown_simps div_default pack_eq)

section \<open>Successful calls\<close>

lemma unat_ucast16: "unat (ucast (w::uint16) :: uint64) = unat w"
proof -
  have "int (unat (ucast w :: uint64)) = uint (ucast w :: uint64)" by simp
  also have "\<dots> = uint w" by (rule uint_ucast16)
  also have "\<dots> = int (unat w)" by simp
  finally show ?thesis by (simp only: of_nat_eq_iff)
qed

lemma unat_le_word64: "unat (m::uint64) \<le> 511 \<Longrightarrow> m \<le> 511"
  by (simp add: word_le_nat_alt)

lemma unat_le_word16: "unat (s::uint16) \<le> 4095 \<Longrightarrow> s \<le> 4095"
  by (simp add: word_le_nat_alt)

lemma less_MaxSequence: "seq < MaxSequence \<Longrightarrow> seq \<le> 4095"
  by (simp add: MaxSequence_eq)

text \<open>What a successful call returns, in terms of the state it leaves.\<close>

lemma NextID_success:
  assumes "NextID A s = Some ((i, None), s')"
  obtains seq s3 where
    "acquired (callSequenceResolver A s) s (lastTimestamp s') seq s3"
    "s' = s3\<lparr>lastTimestamp := lastTimestamp s'\<rparr>"
    "0 \<le> sint (elapsedTime (lastTimestamp s') (startTime s))"
    "sint (elapsedTime (lastTimestamp s') (startTime s)) \<le> 8796093022207"
    "i = pack (elapsedTime (lastTimestamp s') (startTime s)) (machineID s) seq"
  using assms 
proof (cases rule: NextID_cases)
  case (ok now seq s3)
  then have "lastTimestamp s' = now" by simp
  with ok acquire_Inr[OF ok(1)] show ?thesis by (intro that[of seq s3]) simp_all
qed simp_all

lemma Sequence_pack:
  assumes "seq < MaxSequence"
  shows "Sequence (ParseID (pack df m seq)) = ucast seq"
  using rt_seq0[of df m seq] s_tb[OF less_MaxSequence[OF assms]]
  by (simp add: ParseID_mask)

lemma unat_Sequence_less:
  assumes "seq < MaxSequence"
  shows "unat (ucast seq :: uint64) < 4095"
  using assms by (simp add: unat_ucast16 MaxSequence_eq word_less_nat_alt)

text \<open>The fields that \<open>ParseID\<close> reads from the ID of a successful call.\<close>

lemma NextID_fields:
  assumes "NextID A s = Some ((i, None), s')" and "unat (machineID s) \<le> 511"
  obtains seq s3 where
    "acquired (callSequenceResolver A s) s (lastTimestamp s') seq s3"
    "s' = s3\<lparr>lastTimestamp := lastTimestamp s'\<rparr>"
    "0 \<le> sint (lastTimestamp s') - sint (millis (startTime s))"
    "Timestamp (ParseID i) = elapsedTime (lastTimestamp s') (startTime s)"
    "sint (elapsedTime (lastTimestamp s') (startTime s)) =
       sint (lastTimestamp s') - sint (millis (startTime s))"
    "Sequence (ParseID i) = ucast seq"
proof -
  let ?df = "elapsedTime (lastTimestamp s') (startTime s)"
  from assms(1) obtain seq s3 where acq: "acquired (callSequenceResolver A s) s (lastTimestamp s') seq s3"
    and s': "s' = s3\<lparr>lastTimestamp := lastTimestamp s'\<rparr>"
    and r: "0 \<le> sint ?df" "sint ?df \<le> 8796093022207"
    and i: "i = pack ?df (machineID s) seq"
    by (rule NextID_success)
  have el: "sint ?df = sint (lastTimestamp s') - sint (millis (startTime s))"
    using acquired_millis_ok[OF acq] by (rule sint_elapsedTime)
  have "ParseID (pack ?df (machineID s) seq) =
      \<lparr>Sequence = ucast seq, MachineID = machineID s, Timestamp = ?df,
        ID_of = pack ?df (machineID s) seq\<rparr>"
    using r assms(2) acq
    by (intro roundtrip in_range_le unat_le_word64 less_MaxSequence) (simp_all add: acquired_def)
  then have "Timestamp (ParseID i) = ?df" "Sequence (ParseID i) = ucast seq"
    using i by simp_all
  with acq s' r(1) el show thesis by (intro that[of seq s3]) simp_all
qed

section \<open>What holds in every state the package can reach\<close>

text \<open>
  The machine ID is 0 or was set by \<open>SetMachineID\<close>, and \<open>NextID\<close> does not change it: it
  is at most 511. The watermark is 0 or a millisecond that \<open>currentMillis\<close> returned, and
  only \<open>NextID\<close> writes it.
\<close>

lemma init_machineID: "unat (machineID (init_state clk r)) \<le> 511"
  by (simp add: init_state_def)

lemma SetMachineID_bound:
  "SetMachineID m s = Some s' \<Longrightarrow> unat (machineID s') \<le> 511"
  by (auto simp add: SetMachineID_def MaxMachineID_eq word_less_nat_alt unat_ucast16
      split: if_splits)

lemma NextID_machineID:
  assumes "NextID A s = Some (y, s')"
  shows "machineID s' = machineID s"
proof -
  obtain i err where y: "y = (i, err)" by (cases y)
  from assms[unfolded y] show ?thesis
  proof (cases rule: NextID_cases)
    case (fail e)
    from acquire_Inl(1)[OF fail(1)] show ?thesis by (simp add: frame_def)
  next
    case (range now seq s3)
    from acquire_Inr[OF range(1)] range(2) show ?thesis by (simp add: acquired_def frame_def)
  next
    case (ok now seq s3)
    from acquire_Inr[OF ok(1)] ok(2) show ?thesis by (simp add: acquired_def frame_def)
  qed
qed

lemma SetMachineID_others:
  assumes "SetMachineID m s = Some s'"
  shows "lastTimestamp s' = lastTimestamp s" "startTime s' = startTime s"
    "resolver s' = resolver s" "rstate s' = rstate s"
  using assms by (auto simp add: SetMachineID_def split: if_splits)

lemma SetSequenceResolver_others:
  "lastTimestamp (SetSequenceResolver r s) = lastTimestamp s"
  "machineID (SetSequenceResolver r s) = machineID s"
  "startTime (SetSequenceResolver r s) = startTime s"
  by (simp_all add: SetSequenceResolver_def)

lemma init_millis_ok: "millis_ok (lastTimestamp (init_state clk r))"
  by (simp add: init_state_def millis_ok_def)

lemma NextID_millis_ok:
  assumes "NextID A s = Some (y, s')" "millis_ok (lastTimestamp s)"
  shows "millis_ok (lastTimestamp s')"
proof -
  obtain i err where y: "y = (i, err)" by (cases y)
  from assms(1)[unfolded y] show ?thesis
  proof (cases rule: NextID_cases)
    case (fail e)
    from acquire_Inl(1)[OF fail(1)] assms(2) show ?thesis by (simp add: frame_def)
  next
    case (range now seq s3)
    from acquired_millis_ok[OF acquire_Inr[OF range(1)]] range(2) show ?thesis by simp
  next
    case (ok now seq s3)
    from acquired_millis_ok[OF acquire_Inr[OF ok(1)]] ok(2) show ?thesis by simp
  qed
qed

section \<open>The properties\<close>

text \<open>
  Claim C1 (round trip). For an elapsed time \<open>df\<close> with \<open>0 \<le> df \<le> 2^43 - 1\<close>, a machine ID
  \<open>m \<le> 511\<close> and a sequence number \<open>s \<le> 4095\<close>, \<open>ParseID\<close> applied to the packed ID
  \<open>(df << 21) | (m << 12) | s\<close> gives back exactly \<open>Timestamp = df\<close>, \<open>MachineID = m\<close> and
  \<open>Sequence = s\<close>. Hence, for every successful call of \<open>NextID\<close> (with a machine ID of at
  most 511, as \<open>SetMachineID\<close> guarantees), decoding the returned ID gives the machine ID
  of the generator and the time elapsed between the start time and the millisecond that
  the call stored as its watermark.
\<close>

theorem round_trip:
  "(0 \<le> sint df \<and> sint df \<le> 2 ^ 43 - 1 \<and> unat m \<le> 511 \<and> unat s \<le> 4095 \<longrightarrow>
      ParseID (pack df m s) =
        \<lparr>Sequence = ucast s, MachineID = m, Timestamp = df, ID_of = pack df m s\<rparr>) \<and>
   (NextID A st = Some ((i, None), st') \<and> unat (machineID st) \<le> 511 \<longrightarrow>
      MachineID (ParseID i) = machineID st \<and>
      Timestamp (ParseID i) = elapsedTime (lastTimestamp st') (startTime st))"
proof (intro conjI impI)
  assume a: "0 \<le> sint df \<and> sint df \<le> 2 ^ 43 - 1 \<and> unat m \<le> 511 \<and> unat s \<le> 4095"
  then have "df \<le> 8796093022207" by (intro in_range_le) simp
  then show "ParseID (pack df m s) =
        \<lparr>Sequence = ucast s, MachineID = m, Timestamp = df, ID_of = pack df m s\<rparr>"
    using a by (intro roundtrip unat_le_word64 unat_le_word16) simp_all
next
  assume a: "NextID A st = Some ((i, None), st') \<and> unat (machineID st) \<le> 511"
  then have n: "NextID A st = Some ((i, None), st')" by simp
  let ?df = "elapsedTime (lastTimestamp st') (startTime st)"
  from n obtain seq s3 where acq: "acquired (callSequenceResolver A st) st (lastTimestamp st') seq s3"
    and r: "0 \<le> sint ?df" "sint ?df \<le> 8796093022207"
    and i: "i = pack ?df (machineID st) seq"
    by (rule NextID_success)
  have "ParseID (pack ?df (machineID st) seq) =
      \<lparr>Sequence = ucast seq, MachineID = machineID st, Timestamp = ?df,
        ID_of = pack ?df (machineID st) seq\<rparr>"
    using r a acq by (intro roundtrip in_range_le unat_le_word64 less_MaxSequence)
      (simp_all add: acquired_def)
  then show "MachineID (ParseID i) = machineID st" "Timestamp (ParseID i) = ?df"
    using i by simp_all
qed

text \<open>The round trip at the values 1000, 5 and 42, and for the call in \<open>literal_state\<close>.\<close>

theorem round_trip_witness:
  "(0 \<le> sint (1000 :: int64) \<and> sint (1000 :: int64) \<le> 2 ^ 43 - 1 \<and>
    unat (5 :: uint64) \<le> 511 \<and> unat (42 :: uint16) \<le> 4095) \<and>
   ParseID (pack 1000 5 42) =
     \<lparr>Sequence = 42, MachineID = 5, Timestamp = 1000, ID_of = pack 1000 5 42\<rparr> \<and>
   NextID counterResolver literal_state = Some ((2097172522, None), literal_next_state) \<and>
   unat (machineID literal_state) \<le> 511 \<and>
   MachineID (ParseID 2097172522) = 5 \<and> Timestamp (ParseID 2097172522) = 1000"
  using round_trip[of 1000 5 42 counterResolver literal_state 2097172522 literal_next_state]
    literal_NextID[of counterResolver]
  by (simp add: literal_state_def literal_next_state_def example_state_def elapsedTime_def
      div_default)

text \<open>
  Claim C2 (literal example). Packing the elapsed time 1000, the machine ID 5 and the
  sequence number 42 gives \<open>(1000 << 21) | (5 << 12) | 42 = 2097172522\<close>, and
  \<open>ParseID 2097172522\<close> returns \<open>Timestamp = 1000\<close>, \<open>MachineID = 5\<close>, \<open>Sequence = 42\<close>.
  \<open>NextID\<close> returns this ID when the clock is 1000 ms after the default start time
  2008-11-10 23:00:00 UTC, the machine ID is 5 and the resolver answers 42.
\<close>

theorem literal_example:
  "pack 1000 5 42 = 2097172522 \<and>
   ParseID 2097172522 = \<lparr>Sequence = 42, MachineID = 5, Timestamp = 1000, ID_of = 2097172522\<rparr> \<and>
   elapsedTime 1226358001000 defaultStartTime = 1000 \<and>
   NextID A literal_state = Some ((2097172522, None), literal_next_state) \<and>
   lastTimestamp literal_next_state = 1226358001000"
  by (simp add: pack_eq ParseID_eq literal_NextID elapsedTime_def div_default)
     (simp add: literal_next_state_def example_state_def)

text \<open>
  Claim C3 says that bit 63 of every ID that \<open>NextID\<close> returns is zero. The timestamp takes
  43 bits above the 21 bits of machine ID and sequence number, that is the bits 21 to 63,
  so that bit 63 is bit 42 of the elapsed time. In \<open>old_epoch_state\<close> the elapsed time is
  7157980800000 ms, which the range check accepts, and the ID that \<open>NextID\<close> returns has
  bit 63 set.
\<close>

theorem top_bit_set:
  "NextID counterResolver old_epoch_state =
   Some ((15011373750681600000, None),
     example_state 0 (- 5364662400000000000) 1793318400000 (1793318400000, 0)
       1793318400000000000 1793318400000000000 1) \<and>
   bit (15011373750681600000 :: uint64) 63 \<and>
   elapsedTime 1793318400000 (- 5364662400000000000) = 7157980800000 \<and>
   (7157980800000 :: uint64) \<le> MaxTimestamp"
  by (simp add: old_epoch_NextID elapsedTime_def div_1800 MaxTimestamp_eq bit_last_iff[where 'a=64, simplified])

text \<open>
  Claim C4. If at the start of a call the millisecond of the clock is behind the watermark
  by more than 5000 ms, \<open>NextID\<close> returns \<open>ClockBackwardError\<close> with the ID 0, and the
  state is as before the call but for the clock having been read once: the watermark, the
  resolver's state and the configuration are unchanged. The watermark is taken to be in
  the range of the values that \<open>currentMillis\<close> returns, as it is in every state the
  package reaches (\<open>init_millis_ok\<close>, \<open>NextID_millis_ok\<close>).
\<close>

theorem clock_backward_refused:
  assumes "millis_ok (lastTimestamp s)"
    and "5000 < sint (lastTimestamp s) - sint (millis (clock s (tick s)))"
  shows "NextID A s = Some ((0, Some ClockBackwardError), s\<lparr>tick := Suc (tick s)\<rparr>) \<and>
    lastTimestamp (s\<lparr>tick := Suc (tick s)\<rparr>) = lastTimestamp s \<and>
    rstate (s\<lparr>tick := Suc (tick s)\<rparr>) = rstate s \<and>
    machineID (s\<lparr>tick := Suc (tick s)\<rparr>) = machineID s \<and>
    startTime (s\<lparr>tick := Suc (tick s)\<rparr>) = startTime s \<and>
    resolver (s\<lparr>tick := Suc (tick s)\<rparr>) = resolver s"
  using NextID_refused[OF refusedI[OF assms]] by simp

text \<open>A clock 6000 ms behind the watermark.\<close>

theorem clock_backward_refused_witness:
  "millis_ok (lastTimestamp backward_state) \<and>
   5000 < sint (lastTimestamp backward_state) - sint (millis (clock backward_state (tick backward_state))) \<and>
   NextID counterResolver backward_state =
     Some ((0, Some ClockBackwardError),
       example_state 5 defaultStartTime 1226358010000 (0, 0)
         1226358004000000000 1226358004000000000 1) \<and>
   lastTimestamp (example_state 5 defaultStartTime 1226358010000 (0, 0)
         1226358004000000000 1226358004000000000 1) = lastTimestamp backward_state"
proof -
  have h1: "millis_ok (lastTimestamp backward_state)"
    by (simp add: backward_state_def example_state_def millis_ok_def)
  have h2: "5000 < sint (lastTimestamp backward_state) -
      sint (millis (clock backward_state (tick backward_state)))"
    by (simp add: backward_state_def example_state_def step_clock_def millis_def div_back)
  from clock_backward_refused[OF h1 h2, of counterResolver] h1 h2 show ?thesis
    by (simp add: backward_state_def example_state_def)
qed

text \<open>
  Claim C5. A call of \<open>NextID\<close> that returns fails with \<open>EpochRangeError\<close> exactly when it
  got as far as a millisecond \<open>now\<close> and a sequence number and the elapsed time
  \<open>df = now - epoch\<close> is negative or greater than \<open>2^43 - 1\<close>; the ID returned with the error
  is 0. When \<open>NextID\<close> succeeds, \<open>0 \<le> df \<le> 2^43 - 1\<close> for the millisecond it stored as the
  watermark, the subtraction did not wrap around, and \<open>df\<close> is the timestamp field of the
  returned ID (for a machine ID of at most 511).
\<close>

theorem epoch_range_error:
  assumes "NextID A s = Some ((i, err), s')"
  shows "(err = Some EpochRangeError \<longleftrightarrow>
           (\<exists>now seq s3. acquire A s = Some (Inr (now, seq), s3) \<and>
              (sint now - sint (millis (startTime s)) < 0 \<or>
               2 ^ 43 - 1 < sint now - sint (millis (startTime s))))) \<and>
         (err = Some EpochRangeError \<longrightarrow> i = 0) \<and>
         (err = None \<longrightarrow>
            0 \<le> sint (lastTimestamp s') - sint (millis (startTime s)) \<and>
            sint (lastTimestamp s') - sint (millis (startTime s)) \<le> 2 ^ 43 - 1 \<and>
            sint (elapsedTime (lastTimestamp s') (startTime s)) =
              sint (lastTimestamp s') - sint (millis (startTime s)) \<and>
            (unat (machineID s) \<le> 511 \<longrightarrow>
               Timestamp (ParseID i) = elapsedTime (lastTimestamp s') (startTime s)))"
  using assms
proof (cases rule: NextID_cases)
  case (fail e)
  then have "e \<noteq> EpochRangeError" using acquire_Inl(3) by blast
  with fail show ?thesis by auto
next
  case (range now seq s3)
  with acquire_startTime[OF range(1)] show ?thesis by auto
next
  case (ok now seq s3)
  note el = acquire_startTime[OF ok(1)]
  have lt: "lastTimestamp s' = now" using ok(2) by simp
  have "unat (machineID s) \<le> 511 \<longrightarrow> Timestamp (ParseID i) = elapsedTime now (startTime s)"
  proof
    assume m: "unat (machineID s) \<le> 511"
    have "ParseID (pack (elapsedTime now (startTime s)) (machineID s) seq) =
      \<lparr>Sequence = ucast seq, MachineID = machineID s, Timestamp = elapsedTime now (startTime s),
        ID_of = pack (elapsedTime now (startTime s)) (machineID s) seq\<rparr>"
      using ok(3,4) m acquire_Inr[OF ok(1)]
      by (intro roundtrip in_range_le unat_le_word64 less_MaxSequence) (simp_all add: acquired_def)
    then show "Timestamp (ParseID i) = elapsedTime now (startTime s)" using ok(5) by simp
  qed
  with ok el lt show ?thesis by auto
qed

text \<open>A clock 1000 ms before the start time: the elapsed time is negative.\<close>

theorem epoch_range_error_witness:
  "NextID counterResolver before_epoch_state =
     Some ((0, Some EpochRangeError),
       example_state 5 defaultStartTime 1226357999000 (1226357999000, 0)
         1226357999000000000 1226357999000000000 1) \<and>
   acquire counterResolver before_epoch_state =
     Some (Inr (1226357999000, 0),
       example_state 5 defaultStartTime 0 (1226357999000, 0)
         1226357999000000000 1226357999000000000 1) \<and>
   sint (1226357999000 :: int64) - sint (millis (startTime before_epoch_state)) < 0"
  using epoch_range_error[OF before_epoch_NextID, of counterResolver]
    before_epoch_NextID[of counterResolver] before_epoch_acquire[of counterResolver]
  by (simp add: before_epoch_state_def example_state_def millis_def div_default)

text \<open>
  Claim C6. The sequence field of every ID that \<open>NextID\<close> returns is less than 4095: it is
  an answer below the ceiling that the resolver gave for the millisecond of the ID, and
  when the first answer of the resolver is at or above the ceiling, that millisecond is
  after the one the resolver was asked with first. The loop of \<open>NextID\<close>, entered with a
  millisecond \<open>now\<close> and an answer \<open>seq\<close>, only ends with a sequence number below the
  ceiling, and for a \<open>seq\<close> at or above the ceiling only with a later millisecond and an
  answer of the resolver for it. And the loop does wait, re-resolve and repeat: the wait
  returns the first value of the clock that shows a later millisecond, however many
  values it has to read; with an answer at or above the ceiling the loop goes on, after
  the wait, as the loop entered with the new millisecond and the resolver's answer for it;
  with an answer below the ceiling it ends at once with the values it has; and when the
  loop ends so and the elapsed time is in range, \<open>NextID\<close> returns the ID packed from these
  values.
\<close>

theorem sequence_below_ceiling:
  "(NextID A s = Some ((i, None), s') \<longrightarrow>
      unat (Sequence (ParseID i)) < 4095 \<and>
      (\<exists>seq r. callSequenceResolver A s (lastTimestamp s') r = (Inr seq, rstate s') \<and>
         seq < MaxSequence \<and> Sequence (ParseID i) = ucast seq) \<and>
      (\<forall>q r. callSequenceResolver A s (first_now s) (rstate s) = (Inr q, r) \<and>
         MaxSequence \<le> q \<longrightarrow> first_now s <s lastTimestamp s')) \<and>
   (resolveLoop R now seq st = Some (Inr (now', seq'), st') \<longrightarrow>
      seq' < MaxSequence \<and>
      (seq < MaxSequence \<longrightarrow> now' = now \<and> seq' = seq \<and> st' = st) \<and>
      (MaxSequence \<le> seq \<longrightarrow>
         now <s now' \<and> (\<exists>r. R now' r = (Inr seq', rstate st')))) \<and>
   (first_later l sw k \<longrightarrow>
      waitForNextMillis l sw = Some (millis (clock sw k), sw\<lparr>tick := Suc k\<rparr>)) \<and>
   (MaxSequence \<le> seq1 \<and> waitForNextMillis now1 st1 = Some (n1, s1) \<and>
    R1 n1 (rstate s1) = (Inr q1, r1) \<longrightarrow>
      resolveLoop R1 now1 seq1 st1 = resolveLoop R1 n1 q1 (s1\<lparr>rstate := r1\<rparr>)) \<and>
   (seq2 < MaxSequence \<longrightarrow> resolveLoop R2 now2 seq2 st2 = Some (Inr (now2, seq2), st2)) \<and>
   (\<not> refused s0 \<and>
    callSequenceResolver A0 s0 (first_now s0) (rstate s0) = (Inr q0, r0) \<and>
    resolveLoop (callSequenceResolver A0 s0) (first_now s0) q0 (first_state s0\<lparr>rstate := r0\<rparr>) =
      Some (Inr (now3, seq3), s3) \<and>
    0 \<le> sint (elapsedTime now3 (startTime s0)) \<and>
    sint (elapsedTime now3 (startTime s0)) \<le> 2 ^ 43 - 1 \<longrightarrow>
      NextID A0 s0 =
        Some ((pack (elapsedTime now3 (startTime s0)) (machineID s0) seq3, None),
          s3\<lparr>lastTimestamp := now3\<rparr>))"
proof -
  have 1: "unat (Sequence (ParseID i)) < 4095 \<and>
      (\<exists>seq r. callSequenceResolver A s (lastTimestamp s') r = (Inr seq, rstate s') \<and>
         seq < MaxSequence \<and> Sequence (ParseID i) = ucast seq) \<and>
      (\<forall>q r. callSequenceResolver A s (first_now s) (rstate s) = (Inr q, r) \<and>
         MaxSequence \<le> q \<longrightarrow> first_now s <s lastTimestamp s')"
    if n: "NextID A s = Some ((i, None), s')"
  proof -
    let ?R = "callSequenceResolver A s"
    from n obtain seq s3 where acq: "acquired ?R s (lastTimestamp s') seq s3"
      and s': "s' = s3\<lparr>lastTimestamp := lastTimestamp s'\<rparr>"
      and i: "i = pack (elapsedTime (lastTimestamp s') (startTime s)) (machineID s) seq"
      by (rule NextID_success)
    from acq have lt: "seq < MaxSequence" by (simp add: acquired_def)
    have rs: "rstate s' = rstate s3" by (subst s') simp
    have sq: "Sequence (ParseID i) = ucast seq" using Sequence_pack[OF lt] i by simp
    have "unat (Sequence (ParseID i)) < 4095" using unat_Sequence_less[OF lt] sq by simp
    moreover have "\<exists>seq r. ?R (lastTimestamp s') r = (Inr seq, rstate s') \<and>
        seq < MaxSequence \<and> Sequence (ParseID i) = ucast seq"
      using acq lt sq rs by (auto simp add: acquired_def)
    moreover have "\<forall>q r. ?R (first_now s) (rstate s) = (Inr q, r) \<and> MaxSequence \<le> q \<longrightarrow>
        first_now s <s lastTimestamp s'"
      using acq lt by (auto simp add: acquired_def)
    ultimately show ?thesis by simp
  qed
  have 2: "seq' < MaxSequence \<and>
      (seq < MaxSequence \<longrightarrow> now' = now \<and> seq' = seq \<and> st' = st) \<and>
      (MaxSequence \<le> seq \<longrightarrow>
         now <s now' \<and> (\<exists>r. R now' r = (Inr seq', rstate st')))"
    if l: "resolveLoop R now seq st = Some (Inr (now', seq'), st')"
    using resolveLoop_post[OF l] by (auto simp add: loop_post_def)
  have 3: "waitForNextMillis l sw = Some (millis (clock sw k), sw\<lparr>tick := Suc k\<rparr>)"
    if "first_later l sw k"
    using that by (rule wait_exact)
  have 4: "resolveLoop R1 now1 seq1 st1 = resolveLoop R1 n1 q1 (s1\<lparr>rstate := r1\<rparr>)"
    if "MaxSequence \<le> seq1 \<and> waitForNextMillis now1 st1 = Some (n1, s1) \<and>
      R1 n1 (rstate s1) = (Inr q1, r1)"
    using that by (intro resolveLoop_step) simp_all
  have 5: "resolveLoop R2 now2 seq2 st2 = Some (Inr (now2, seq2), st2)"
    if "seq2 < MaxSequence"
    using that by (rule resolveLoop_below)
  have 6: "NextID A0 s0 =
        Some ((pack (elapsedTime now3 (startTime s0)) (machineID s0) seq3, None),
          s3\<lparr>lastTimestamp := now3\<rparr>)"
    if "\<not> refused s0 \<and>
      callSequenceResolver A0 s0 (first_now s0) (rstate s0) = (Inr q0, r0) \<and>
      resolveLoop (callSequenceResolver A0 s0) (first_now s0) q0 (first_state s0\<lparr>rstate := r0\<rparr>) =
        Some (Inr (now3, seq3), s3) \<and>
      0 \<le> sint (elapsedTime now3 (startTime s0)) \<and>
      sint (elapsedTime now3 (startTime s0)) \<le> 2 ^ 43 - 1"
    using that by (intro NextID_of_loop[where ?q0.0 = q0 and ?r0.0 = r0]) simp_all
  from 1 2 3 4 5 6 show ?thesis by blast
qed

text \<open>
  The resolver answers 4095 first; the wait reads the clock twice before it shows the next
  millisecond; the resolver answers 0 for that millisecond, and \<open>NextID\<close> returns.
\<close>

theorem sequence_below_ceiling_witness:
  "NextID counterResolver ceiling_state = Some ((2099269632, None), ceiling_final_state) \<and>
   unat (Sequence (ParseID 2099269632)) < 4095 \<and>
   resolveLoop counterResolver 1226358001000 4095 ceiling_loop_state =
     Some (Inr (1226358001001, 0), ceiling_end_state) \<and>
   MaxSequence \<le> 4095 \<and> (1226358001000 :: int64) <s 1226358001001 \<and>
   first_later 1226358001000 ceiling_loop_state 2 \<and>
   waitForNextMillis 1226358001000 ceiling_loop_state =
     Some (1226358001001, ceiling_waited_state) \<and>
   counterResolver 1226358001001 (rstate ceiling_waited_state) = (Inr 0, (1226358001001, 0)) \<and>
   (0 :: uint16) < MaxSequence \<and>
   resolveLoop counterResolver 1226358001001 0 ceiling_end_state =
     Some (Inr (1226358001001, 0), ceiling_end_state) \<and>
   \<not> refused ceiling_state \<and>
   callSequenceResolver counterResolver ceiling_state (first_now ceiling_state)
     (rstate ceiling_state) = (Inr 4095, (1226358001000, 4095)) \<and>
   sint (elapsedTime 1226358001001 (startTime ceiling_state)) = 1001"
proof -
  have m: "MaxSequence \<le> 4095" "(0 :: uint16) < MaxSequence" by (simp_all add: MaxSequence_eq)
  have st: "startTime ceiling_state = defaultStartTime" "machineID ceiling_state = 5"
    by (simp_all add: ceiling_state_def wait_state_def)
  have e: "elapsedTime 1226358001001 defaultStartTime = 1001"
    by (simp add: elapsedTime_def div_default)
  have r: "callSequenceResolver counterResolver ceiling_state (first_now ceiling_state)
     (rstate ceiling_state) = (Inr 4095, (1226358001000, 4095))"
    by (simp add: ceiling_resolver ceiling_first)
  have lp: "resolveLoop (callSequenceResolver counterResolver ceiling_state)
      (first_now ceiling_state) 4095
      (first_state ceiling_state\<lparr>rstate := (1226358001000, 4095)\<rparr>) =
      Some (Inr (1226358001001, 0), ceiling_end_state)"
    by (simp add: ceiling_resolver ceiling_first ceiling_loop)
  from sequence_below_ceiling
    [where A = counterResolver and s = ceiling_state and i = 2099269632
      and s' = ceiling_final_state
      and R = counterResolver and now = 1226358001000 and seq = 4095 and st = ceiling_loop_state
      and now' = 1226358001001 and seq' = 0 and st' = ceiling_end_state
      and l = 1226358001000 and sw = ceiling_loop_state and k = 2
      and ?seq1.0 = 4095 and ?now1.0 = 1226358001000 and ?st1.0 = ceiling_loop_state
      and ?n1.0 = 1226358001001 and ?s1.0 = ceiling_waited_state and ?R1.0 = counterResolver
      and ?q1.0 = 0 and ?r1.0 = "(1226358001001, 0)"
      and ?seq2.0 = 0 and ?R2.0 = counterResolver and ?now2.0 = 1226358001001
      and ?st2.0 = ceiling_end_state
      and ?A0.0 = counterResolver and ?s0.0 = ceiling_state and ?q0.0 = 4095
      and ?r0.0 = "(1226358001000, 4095)" and ?now3.0 = 1226358001001 and ?seq3.0 = 0
      and ?s3.0 = ceiling_end_state]
    ceiling_NextID[of counterResolver] ceiling_loop ceiling_first_later ceiling_wait ceiling_resolve
    ceiling_first(1) m r lp
  have "unat (Sequence (ParseID 2099269632)) < 4095 \<and>
    (1226358001000 :: int64) <s 1226358001001 \<and>
    resolveLoop counterResolver 1226358001001 0 ceiling_end_state =
      Some (Inr (1226358001001, 0), ceiling_end_state)"
    by (simp add: st e)
  with ceiling_NextID[of counterResolver] ceiling_loop ceiling_first_later ceiling_wait
    ceiling_resolve ceiling_first(1) m r
  show ?thesis by (simp add: st e)
qed

text \<open>
  Claim C7 says that, for a fixed machine ID and start time and a clock that never moves
  backward, two successive successful calls of \<open>NextID\<close> never return a smaller pair of
  timestamp and sequence number. \<open>NextID\<close> packs whatever number below the ceiling the
  resolver answers, and \<open>SetSequenceResolver\<close> accepts any resolver: with the resolver that
  counts down, machine ID 5 and a clock that stays in one millisecond, the first call
  returns the sequence number 4094 and the second 4093, with the same timestamp.
\<close>

theorem ids_decrease_with_countdown_resolver:
  "SetMachineID 5 countdown_initial_state = Some (countdown_initial_state\<lparr>machineID := 5\<rparr>) \<and>
   SetSequenceResolver (Some countdownResolver) (countdown_initial_state\<lparr>machineID := 5\<rparr>) =
     countdown_first_state \<and>
   NextID counterResolver countdown_first_state =
     Some ((2097176574, None), countdown_second_state) \<and>
   NextID counterResolver countdown_second_state =
     Some ((2097176573, None), countdown_third_state) \<and>
   clock_monotone (clock countdown_first_state) \<and>
   Timestamp (ParseID 2097176574) = 1000 \<and> Sequence (ParseID 2097176574) = 4094 \<and>
   Timestamp (ParseID 2097176573) = 1000 \<and> Sequence (ParseID 2097176573) = 4093 \<and>
   Sequence (ParseID 2097176573) < Sequence (ParseID 2097176574)"
  by (simp add: countdown_configure countdown_first_NextID countdown_second_NextID)
     (simp add: countdown_first_state_def countdown_state_def constant_clock_monotone ParseID_eq)

text \<open>
  Claim C7, amended. With a fixed machine ID (of at most 511) and start time, a clock that
  never moves backward, and a resolver in use that, asked twice in a row for the same
  millisecond, does not answer with a smaller number the second time
  (\<open>resolver_monotone\<close>), two successful calls of \<open>NextID\<close>, the second made in the state
  the first left, return IDs whose pairs of timestamp and sequence number do not decrease
  in the lexicographic order.
\<close>

theorem ids_nondecreasing:
  assumes n1: "NextID A s0 = Some ((i1, None), s1)"
    and n2: "NextID A s1 = Some ((i2, None), s2)"
    and m: "unat (machineID s0) \<le> 511"
    and ck: "clock_monotone (clock s0)"
    and rm: "resolver_monotone (callSequenceResolver A s0)"
  shows "Timestamp (ParseID i1) < Timestamp (ParseID i2) \<or>
     Timestamp (ParseID i1) = Timestamp (ParseID i2) \<and>
     Sequence (ParseID i1) \<le> Sequence (ParseID i2)"
proof -
  let ?R = "callSequenceResolver A s0"
  let ?t1 = "lastTimestamp s1" and ?t2 = "lastTimestamp s2"
  from n1 m obtain q1 u1 where a1: "acquired ?R s0 ?t1 q1 u1"
    and s1: "s1 = u1\<lparr>lastTimestamp := ?t1\<rparr>"
    and p1: "0 \<le> sint ?t1 - sint (millis (startTime s0))"
    and ts1: "Timestamp (ParseID i1) = elapsedTime ?t1 (startTime s0)"
    and el1: "sint (elapsedTime ?t1 (startTime s0)) = sint ?t1 - sint (millis (startTime s0))"
    and sq1: "Sequence (ParseID i1) = ucast q1"
    by (rule NextID_fields)
  have f1: "frame s0 u1" using a1 by (simp add: acquired_def)
  have same: "resolver s1 = resolver s0" "machineID s1 = machineID s0"
    "startTime s1 = startTime s0" "clock s1 = clock s0" "rstate s1 = rstate u1" "tick s1 = tick u1"
    using f1 by (subst s1, simp add: frame_def)+
  have R: "callSequenceResolver A s1 = ?R"
    by (simp add: callSequenceResolver_def same)
  have m1: "unat (machineID s1) \<le> 511" using m by (simp add: same)
  obtain q2 u2 where a2': "acquired (callSequenceResolver A s1) s1 ?t2 q2 u2"
    and ts2': "Timestamp (ParseID i2) = elapsedTime ?t2 (startTime s1)"
    and el2': "sint (elapsedTime ?t2 (startTime s1)) = sint ?t2 - sint (millis (startTime s1))"
    and sq2: "Sequence (ParseID i2) = ucast q2"
    by (rule NextID_fields[OF n2 m1])
  have a2: "acquired ?R s1 ?t2 q2 u2" using a2' by (simp only: R)
  have ts2: "Timestamp (ParseID i2) = elapsedTime ?t2 (startTime s0)"
    using ts2' by (simp only: same)
  have el2: "sint (elapsedTime ?t2 (startTime s0)) = sint ?t2 - sint (millis (startTime s0))"
    using el2' by (simp only: same)
  from a1 obtain k where k: "k < tick s1" "?t1 = millis (clock s0 k)"
    by (auto simp add: acquired_def same)
  have "clock s0 k \<le>s clock s0 (tick s1)"
    using ck k(1) by (simp add: clock_monotone_def)
  then have first: "?t1 \<le>s millis (clock s1 (tick s1))"
    using k(2) by (simp add: millis_mono same)
  then have ns: "\<not> slept s1" by (simp add: slept_def word_sle_eq word_sless_alt)
  then have fn: "first_now s1 = millis (clock s1 (tick s1))" by (simp add: first_now_def)
  have le: "?t1 \<le>s ?t2"
    using sle_trans[OF first acquired_first_now[OF a2, unfolded fn]] .
  from sle_cases[OF le] show ?thesis
  proof
    assume "?t1 <s ?t2"
    then have "sint (elapsedTime ?t1 (startTime s0)) < sint (elapsedTime ?t2 (startTime s0))"
      by (simp add: el1 el2 word_sless_alt)
    then have "elapsedTime ?t1 (startTime s0) < elapsedTime ?t2 (startTime s0)"
      using p1 by (intro word_less_of_sint) (simp_all add: el1)
    then show ?thesis by (simp add: ts1 ts2)
  next
    assume eq: "?t1 = ?t2"
    have q1: "q1 < MaxSequence" using a1 by (simp add: acquired_def)
    from a1 obtain r where r1: "?R ?t1 r = (Inr q1, rstate s1)"
      by (auto simp add: acquired_def same)
    have "\<not> first_now s1 <s ?t2"
      using first eq fn by (simp add: word_sle_eq word_sless_alt)
    with a2 have r2: "?R ?t1 (rstate s1) = (Inr q2, rstate u2)"
      by (auto simp add: acquired_def eq)
    from rm r1 r2 q1 have "q1 \<le> q2" unfolding resolver_monotone_def by blast
    then show ?thesis by (simp add: ts1 ts2 sq1 sq2 eq ucast16_le)
  qed
qed

text \<open>Two calls within the same millisecond: the sequence numbers are 42 and 43.\<close>

theorem ids_nondecreasing_witness:
  "NextID counterResolver literal_state = Some ((2097172522, None), literal_next_state) \<and>
   NextID counterResolver literal_next_state =
     Some ((2097172523, None),
       example_state 5 defaultStartTime 1226358001000 (1226358001000, 43)
         1226358001000000000 1226358001000000000 2) \<and>
   unat (machineID literal_state) \<le> 511 \<and>
   clock_monotone (clock literal_state) \<and>
   resolver_monotone (callSequenceResolver counterResolver literal_state) \<and>
   Timestamp (ParseID 2097172522) = Timestamp (ParseID 2097172523) \<and>
   Sequence (ParseID 2097172522) \<le> Sequence (ParseID 2097172523)"
proof -
  have m: "unat (machineID literal_state) \<le> 511"
    by (simp add: literal_state_def example_state_def)
  have c: "clock_monotone (clock literal_state)"
    by (simp add: literal_state_def example_state_def constant_clock_monotone)
  have r: "resolver_monotone (callSequenceResolver counterResolver literal_state)"
    by (simp add: literal_state_def example_state_def callSequenceResolver_def
        counterResolver_monotone)
  from ids_nondecreasing[OF literal_NextID literal_second_NextID m c r]
  have "Timestamp (ParseID 2097172522) = Timestamp (ParseID 2097172523) \<and>
     Sequence (ParseID 2097172522) \<le> Sequence (ParseID 2097172523)"
    by (simp add: ParseID_eq)
  with literal_NextID[of counterResolver] literal_second_NextID[of counterResolver] m c r
  show ?thesis by simp
qed

text \<open>
  Claim C8. \<open>ParseID\<close> is a total function on all 64-bit values, with no failure and no
  validation: its field \<open>ID\<close> is the input, and its other fields are bounded by
  construction, \<open>Sequence \<le> 4095\<close>, \<open>MachineID \<le> 511\<close> and \<open>Timestamp \<le> 2^43 - 1\<close>.
\<close>

theorem ParseID_total:
  "ID_of (ParseID i) = i \<and>
   Sequence (ParseID i) \<le> ucast MaxSequence \<and>
   MachineID (ParseID i) \<le> ucast MaxMachineID \<and>
   Timestamp (ParseID i) \<le> MaxTimestamp \<and>
   unat (Sequence (ParseID i)) \<le> 4095 \<and> unat (MachineID (ParseID i)) \<le> 511 \<and>
   unat (Timestamp (ParseID i)) \<le> 2 ^ 43 - 1"
  using seq_le[of i] mid_le[of i] ts_le[of i]
  by (simp add: ParseID_eq MaxSequence_eq MaxMachineID_eq MaxTimestamp_eq word_le_nat_alt)

text \<open>
  Claim C9. \<open>SetMachineID m\<close> panics exactly when \<open>m > 511\<close>; for every \<open>m \<le> 511\<close> it does
  not panic and sets the machine ID to \<open>m\<close>.
\<close>

theorem SetMachineID_panics_iff:
  "(SetMachineID m s = None \<longleftrightarrow> 511 < unat m) \<and>
   (unat m \<le> 511 \<longrightarrow>
      SetMachineID m s = Some (s\<lparr>machineID := ucast m\<rparr>) \<and>
      unat (machineID (s\<lparr>machineID := ucast m\<rparr>)) = unat m)"
  by (simp add: SetMachineID_def MaxMachineID_eq word_less_nat_alt unat_ucast16)

text \<open>\<open>SetMachineID\<close> at 512, which panics, and at 5, which is stored.\<close>

theorem SetMachineID_panics_iff_witness:
  "SetMachineID 512 literal_state = None \<and> 511 < unat (512 :: uint16) \<and>
   unat (5 :: uint16) \<le> 511 \<and>
   SetMachineID 5 literal_state = Some (literal_state\<lparr>machineID := 5\<rparr>) \<and>
   unat (machineID (literal_state\<lparr>machineID := 5\<rparr>)) = 5"
  using SetMachineID_panics_iff[of 512 literal_state] SetMachineID_panics_iff[of 5 literal_state]
  by simp

text \<open>
  Claim C10 says that the watermark stored by a successful call is never older than the
  one read at the start of the call. After the sleep \<open>NextID\<close> reads the clock again and
  does not compare it with the watermark. On \<open>drift_clock\<close> the first call stores the
  watermark 1226358001100; the second call finds the clock 100 ms behind, sleeps, reads
  1226358001099, succeeds and stores that, a watermark 1 ms older.
\<close>

theorem watermark_regresses:
  "NextID counterResolver drift_first_state = Some ((2306887680, None), drift_second_state) \<and>
   NextID counterResolver drift_second_state = Some ((2304790528, None), drift_third_state) \<and>
   lastTimestamp drift_second_state = 1226358001100 \<and>
   lastTimestamp drift_third_state = 1226358001099 \<and>
   lastTimestamp drift_third_state <s lastTimestamp drift_second_state"
  by (simp add: drift_first_NextID drift_second_NextID)
     (simp add: drift_second_state_def drift_third_state_def drift_state_def word_sless_alt)

text \<open>
  Claim C10, amended. For every call of \<open>NextID\<close> that reaches the store (it succeeds, or
  fails in the range check that follows the store), provided that, if the call slept
  because the clock was behind, the clock read after the sleep is not behind the watermark
  any more: the watermark stored is not older than the one read at the start. The store
  comes before the ID is computed: the state holds the millisecond that the first part of
  the call ended with, also when the range check then fails.
\<close>

theorem watermark_monotone:
  assumes "NextID A s = Some ((i, err), s')"
    and "err = None \<or> err = Some EpochRangeError"
    and "slept s \<longrightarrow> lastTimestamp s \<le>s millis (clock s (Suc (tick s)))"
  shows "lastTimestamp s \<le>s lastTimestamp s' \<and>
     (\<exists>seq s3. acquire A s = Some (Inr (lastTimestamp s', seq), s3) \<and>
        s' = s3\<lparr>lastTimestamp := lastTimestamp s'\<rparr>)"
  using assms(1)
proof (cases rule: NextID_cases)
  case (fail e)
  then have "e \<noteq> EpochRangeError" using acquire_Inl(3) by blast
  with fail assms(2) show ?thesis by simp
next
  case (range now seq s3)
  have "lastTimestamp s \<le>s now"
    using sle_trans[OF watermark_le_first_now[OF assms(3)] acquired_first_now[OF acquire_Inr[OF range(1)]]] .
  with range show ?thesis by simp
next
  case (ok now seq s3)
  have "lastTimestamp s \<le>s now"
    using sle_trans[OF watermark_le_first_now[OF assms(3)] acquired_first_now[OF acquire_Inr[OF ok(1)]]] .
  with ok show ?thesis by simp
qed

text \<open>The clock is 100 ms behind, and has caught up after the sleep.\<close>

theorem watermark_monotone_witness:
  "NextID counterResolver recovering_state =
     Some ((2306887680, None),
       example_state 5 defaultStartTime 1226358001100 (1226358001100, 0)
         1226358001000000000 1226358001100000000 2) \<and>
   slept recovering_state \<and>
   lastTimestamp recovering_state \<le>s millis (clock recovering_state (Suc (tick recovering_state))) \<and>
   lastTimestamp recovering_state \<le>s 1226358001100 \<and>
   acquire counterResolver recovering_state =
     Some (Inr (1226358001100, 0),
       example_state 5 defaultStartTime 1226358001100 (1226358001100, 0)
         1226358001000000000 1226358001100000000 2)"
proof -
  have h: "slept recovering_state"
    "lastTimestamp recovering_state \<le>s millis (clock recovering_state (Suc (tick recovering_state)))"
    by (simp_all add: recovering_state_def ex_simps div_T div_recover)
  from watermark_monotone[OF recovering_NextID, of counterResolver] h(2)
  have "lastTimestamp recovering_state \<le>s 1226358001100"
    by (simp add: example_state_def)
  with h recovering_NextID[of counterResolver] recovering_acquire[of counterResolver]
  show ?thesis by simp
qed

end
